theory Spec2Isabelle
  imports Main "HOL-Library.Multiset"
begin

section \<open>Python values of gather\_modules.py\<close>

text \<open>
  The script works on what \<^verbatim>\<open>json.load\<close> returns: \<^verbatim>\<open>None\<close>, booleans, integers,
  strings, lists and dictionaries with string keys. A dictionary is the list of its
  items in insertion order; a lookup takes the first item with the key. Number literals
  with a fraction or an exponent (Python floats) are not part of the model, and a
  character is a code point below 256.
\<close>

datatype json =
    JNull
  | JBool bool
  | JInt int
  | JStr string
  | JArr "json list"
  | JObj "(string \<times> json) list"

text \<open>
  The exceptions the script can raise. \<^verbatim>\<open>InputError\<close> is the script's own class;
  \<^verbatim>\<open>JSONDecodeError\<close> is the subclass of \<^verbatim>\<open>ValueError\<close> that the JSON parser
  raises; the others are raised by the interpreter on a failed field access, a wrong
  type or a missing attribute. \<^verbatim>\<open>InputError\<close>, \<^verbatim>\<open>ValueError\<close> and \<^verbatim>\<open>OSError\<close>
  carry their message.
\<close>

datatype py_error =
    InputError string
  | ValueError string
  | JSONDecodeError
  | KeyError
  | TypeError
  | AttributeError
  | IndexError
  | OSError string

subsection \<open>Strings\<close>

definition digit_char :: "nat \<Rightarrow> char" where
  "digit_char d = ''0123456789abcdef'' ! d"

function str_nat :: "nat \<Rightarrow> string" where
  "str_nat n = (if n < 10 then [digit_char n] else str_nat (n div 10) @ [digit_char (n mod 10)])"
  by pat_completeness auto
termination
  by (relation "measure id") auto

declare str_nat.simps [simp del]

text \<open>\<^verbatim>\<open>str(i)\<close> of an integer.\<close>

definition str_int :: "int \<Rightarrow> string" where
  "str_int i = (if i < 0 then CHR ''-'' # str_nat (nat (- i)) else str_nat (nat i))"

text \<open>\<^verbatim>\<open>s.startswith(p)\<close>.\<close>

definition startswith :: "string \<Rightarrow> string \<Rightarrow> bool" where
  "startswith s p = (take (length p) s = p)"

text \<open>\<^verbatim>\<open>sep.join(xs)\<close> on a list of strings.\<close>

fun py_join :: "string \<Rightarrow> string list \<Rightarrow> string" where
  "py_join sep [] = []"
| "py_join sep [x] = x"
| "py_join sep (x # y # ys) = x @ sep @ py_join sep (y # ys)"

text \<open>
  \<^verbatim>\<open>s.replace(old, new)\<close>: every occurrence of \<open>old\<close>, found from the left and not
  overlapping, becomes \<open>new\<close>. The script only calls it with a non-empty \<open>old\<close>.
\<close>

fun py_replace :: "string \<Rightarrow> string \<Rightarrow> string \<Rightarrow> string" where
  "py_replace old new [] = []"
| "py_replace old new (c # cs) =
     (if old \<noteq> [] \<and> take (length old) (c # cs) = old
      then new @ py_replace old new (drop (length old) (c # cs))
      else c # py_replace old new cs)"

text \<open>
  The characters \<^verbatim>\<open>str.rstrip()\<close> removes, among the code points below 256: tab to
  carriage return, the four separators 0x1c to 0x1f, the space, 0x85 and 0xa0.
\<close>

definition py_isspace :: "char \<Rightarrow> bool" where
  "py_isspace c = (of_char c \<in> {9, 10, 11, 12, 13, 28, 29, 30, 31, 32, 133, 160 :: nat})"

text \<open>\<^verbatim>\<open>s.rstrip()\<close> and \<^verbatim>\<open>s.rstrip(chars)\<close>.\<close>

definition py_rstrip :: "string \<Rightarrow> string" where
  "py_rstrip s = rev (dropWhile py_isspace (rev s))"

definition py_rstrip_chars :: "string \<Rightarrow> string \<Rightarrow> string" where
  "py_rstrip_chars chars s = rev (dropWhile (\<lambda>c. c \<in> set chars) (rev s))"

text \<open>
  \<^verbatim>\<open>repr\<close> of a string: single quotes unless the string has a single quote and no
  double quote; the quote and the backslash escaped, tab, newline and carriage return
  by letter, every other unprintable character as \<^verbatim>\<open>\xNN\<close>.
\<close>

definition repr_quote :: "string \<Rightarrow> char" where
  "repr_quote s = (if CHR 0x27 \<in> set s \<and> CHR 0x22 \<notin> set s then CHR 0x22 else CHR 0x27)"

definition repr_printable :: "char \<Rightarrow> bool" where
  "repr_printable c =
     (let n = of_char c :: nat in (32 \<le> n \<and> n < 127) \<or> (161 \<le> n \<and> n \<noteq> 173))"

definition repr_char :: "char \<Rightarrow> char \<Rightarrow> string" where
  "repr_char quote c =
     (if c = quote \<or> c = CHR 0x5C then [CHR 0x5C, c]
      else if c = CHR 0x09 then [CHR 0x5C, CHR ''t'']
      else if c = CHR 0x0A then [CHR 0x5C, CHR ''n'']
      else if c = CHR 0x0D then [CHR 0x5C, CHR ''r'']
      else if repr_printable c then [c]
      else [CHR 0x5C, CHR ''x'', digit_char (of_char c div 16), digit_char (of_char c mod 16)])"

definition repr_str :: "string \<Rightarrow> string" where
  "repr_str s = (let quote = repr_quote s in [quote] @ concat (map (repr_char quote) s) @ [quote])"

text \<open>\<^verbatim>\<open>repr(v)\<close> and \<^verbatim>\<open>str(v)\<close>, which is what an f-string field prints.\<close>

fun py_repr :: "json \<Rightarrow> string" where
  "py_repr JNull = ''None''"
| "py_repr (JBool b) = (if b then ''True'' else ''False'')"
| "py_repr (JInt i) = str_int i"
| "py_repr (JStr s) = repr_str s"
| "py_repr (JArr xs) = ''['' @ py_join '', '' (map py_repr xs) @ '']''"
| "py_repr (JObj kvs) =
     ''{'' @ py_join '', '' (map (\<lambda>(k, v). repr_str k @ '': '' @ py_repr v) kvs) @ ''}''"

fun py_str :: "json \<Rightarrow> string" where
  "py_str (JStr s) = s"
| "py_str v = py_repr v"

subsection \<open>Raising\<close>

text \<open>
  A computation that may raise returns \<open>Inl\<close> of the exception or \<open>Inr\<close> of its value.
  \<open>bind_result r f\<close> runs \<open>f\<close> on the value of \<open>r\<close>, and passes on what \<open>r\<close> raised.
\<close>

fun bind_result :: "py_error + 'a \<Rightarrow> ('a \<Rightarrow> py_error + 'b) \<Rightarrow> py_error + 'b" where
  "bind_result (Inl e) f = Inl e"
| "bind_result (Inr x) f = f x"

subsection \<open>Operations on values\<close>

text \<open>\<^verbatim>\<open>bool(v)\<close>: what \<^verbatim>\<open>if not v\<close> tests.\<close>

fun py_truthy :: "json \<Rightarrow> bool" where
  "py_truthy JNull = False"
| "py_truthy (JBool b) = b"
| "py_truthy (JInt i) = (i \<noteq> 0)"
| "py_truthy (JStr s) = (s \<noteq> [])"
| "py_truthy (JArr xs) = (xs \<noteq> [])"
| "py_truthy (JObj kvs) = (kvs \<noteq> [])"

text \<open>\<^verbatim>\<open>v[key]\<close> with a string key: only a dictionary has one.\<close>

fun py_getitem :: "json \<Rightarrow> string \<Rightarrow> py_error + json" where
  "py_getitem (JObj kvs) key = (case map_of kvs key of None \<Rightarrow> Inl KeyError | Some v \<Rightarrow> Inr v)"
| "py_getitem v key = Inl TypeError"

text \<open>\<^verbatim>\<open>v.get(key, default)\<close>: only a dictionary has the method.\<close>

fun py_get :: "json \<Rightarrow> string \<Rightarrow> json \<Rightarrow> py_error + json" where
  "py_get (JObj kvs) key dflt = (case map_of kvs key of None \<Rightarrow> Inr dflt | Some v \<Rightarrow> Inr v)"
| "py_get v key dflt = Inl AttributeError"

text \<open>
  What a \<^verbatim>\<open>for\<close> loop iterates over: the elements of a list, the keys of a dictionary,
  the characters of a string; anything else is not iterable.
\<close>

fun py_iter :: "json \<Rightarrow> py_error + json list" where
  "py_iter (JArr xs) = Inr xs"
| "py_iter (JObj kvs) = Inr (map (\<lambda>(k, v). JStr k) kvs)"
| "py_iter (JStr s) = Inr (map (\<lambda>c. JStr [c]) s)"
| "py_iter v = Inl TypeError"

text \<open>\<^verbatim>\<open>d[key] = v\<close> on the items of a dictionary: a present key keeps its place.\<close>

fun dict_set :: "('k \<times> 'v) list \<Rightarrow> 'k \<Rightarrow> 'v \<Rightarrow> ('k \<times> 'v) list" where
  "dict_set [] key v = [(key, v)]"
| "dict_set ((k, w) # kvs) key v =
     (if k = key then (k, v) # kvs else (k, w) # dict_set kvs key v)"

section \<open>The area extractor: get\_areas\<close>

text \<open>The anchor \<^verbatim>\<open>f"r{r_index + 1}c{c_index + 1}"\<close>.\<close>

definition area_anchor :: "nat \<Rightarrow> nat \<Rightarrow> string" where
  "area_anchor r_index c_index = ''r'' @ str_nat (r_index + 1) @ ''c'' @ str_nat (c_index + 1)"

text \<open>
  \<^verbatim>\<open>2 <= schema <= 3\<close>: an integer is compared, a boolean counts as 0 or 1, every other
  value cannot be compared with an integer.
\<close>

fun schema_in_range :: "json \<Rightarrow> py_error + bool" where
  "schema_in_range (JInt i) = Inr (2 \<le> i \<and> i \<le> 3)"
| "schema_in_range (JBool b) = Inr (2 \<le> (if b then 1 else 0 :: int) \<and> (if b then 1 else 0 :: int) \<le> 3)"
| "schema_in_range v = Inl TypeError"

definition schema_message :: "json \<Rightarrow> string" where
  "schema_message schema = ''incompatible antiSMASH results file schema version: '' @ py_str schema"

text \<open>
  The dictionary stored under an anchor. The fields are read in the order of the
  dictionary display: the record's \<^verbatim>\<open>id\<close> first, then the area's \<^verbatim>\<open>start\<close>,
  \<^verbatim>\<open>end\<close> and \<^verbatim>\<open>products\<close>.
\<close>

definition make_area :: "json \<Rightarrow> json \<Rightarrow> py_error + (string \<times> json) list" where
  "make_area record area =
     bind_result (py_getitem record ''id'') (\<lambda>name.
     bind_result (py_getitem area ''start'') (\<lambda>start.
     bind_result (py_getitem area ''end'') (\<lambda>end'.
     bind_result (py_getitem area ''products'') (\<lambda>products.
     Inr [(''name'', name), (''start'', start), (''end'', end'), (''products'', products)]))))"

type_synonym areas = "(string \<times> (string \<times> json) list) list"

text \<open>The inner loop, over the areas of one record, from area index \<open>c_index\<close> on.\<close>

fun areas_loop :: "nat \<Rightarrow> json \<Rightarrow> nat \<Rightarrow> json list \<Rightarrow> areas \<Rightarrow> py_error + areas" where
  "areas_loop r_index record c_index [] acc = Inr acc"
| "areas_loop r_index record c_index (area # rest) acc =
     bind_result (make_area record area) (\<lambda>d.
     areas_loop r_index record (Suc c_index) rest (dict_set acc (area_anchor r_index c_index) d))"

text \<open>The outer loop, over the records, from record index \<open>r_index\<close> on.\<close>

fun records_loop :: "nat \<Rightarrow> json list \<Rightarrow> areas \<Rightarrow> py_error + areas" where
  "records_loop r_index [] acc = Inr acc"
| "records_loop r_index (record # rest) acc =
     bind_result (py_getitem record ''areas'') (\<lambda>record_areas.
     bind_result (py_iter record_areas) (\<lambda>as.
     bind_result (areas_loop r_index record 0 as acc) (\<lambda>acc'.
     records_loop (Suc r_index) rest acc')))"

text \<open>
  \<^verbatim>\<open>get_areas\<close> on the document \<^verbatim>\<open>json.load\<close> returned: \<open>None\<close> when the file is not
  JSON and the parser raised.
\<close>

definition get_areas :: "json option \<Rightarrow> py_error + areas" where
  "get_areas handle =
     bind_result (case handle of None \<Rightarrow> Inl JSONDecodeError | Some v \<Rightarrow> Inr v) (\<lambda>full_results.
     bind_result (py_get full_results ''schema'' (JInt 0)) (\<lambda>schema.
     bind_result (schema_in_range schema) (\<lambda>ok.
     if \<not> ok then Inl (InputError (schema_message schema))
     else
       bind_result (py_getitem full_results ''records'') (\<lambda>records.
       bind_result (py_iter records) (\<lambda>rs.
       records_loop 0 rs [])))))"

section \<open>The bubble-data extractor: extract\_bubble\_data\<close>

definition VISUALISER_ROOT :: string where
  "VISUALISER_ROOT = ''antismash.outputs.html.visualisers''"

text \<open>
  The first loop: skip to the first line that starts with \<^verbatim>\<open>var resultsData =\<close>. The
  result is that line and the lines after it, or nothing when no line starts so.
\<close>

fun skip_to_section :: "string list \<Rightarrow> string list" where
  "skip_to_section [] = []"
| "skip_to_section (line # rest) =
     (if \<not> startswith line ''var resultsData ='' then skip_to_section rest else line # rest)"

text \<open>The second loop: the lines up to the first one that starts with \<^verbatim>\<open>var \<close>.\<close>

fun collect_section :: "string list \<Rightarrow> string list" where
  "collect_section [] = []"
| "collect_section (line # rest) =
     (if \<not> startswith line ''var '' then line # collect_section rest else [])"

text \<open>
  The lines collected from the found line on, after the assignment has been removed
  from the found line.
\<close>

definition relevant_section :: "string \<Rightarrow> string list \<Rightarrow> string list" where
  "relevant_section line rest = collect_section (py_replace ''var resultsData = '' [] line # rest)"

text \<open>The text handed to the JSON parser.\<close>

definition section_text :: "string list \<Rightarrow> string" where
  "section_text section = py_rstrip_chars '';'' (py_rstrip (py_join '' '' section))"

text \<open>\<^verbatim>\<open>v.items()\<close> and \<^verbatim>\<open>v.values()\<close>: only a dictionary has the methods.\<close>

fun py_items :: "json \<Rightarrow> py_error + (string \<times> json) list" where
  "py_items (JObj kvs) = Inr kvs"
| "py_items v = Inl AttributeError"

fun py_values :: "json \<Rightarrow> py_error + json list" where
  "py_values (JObj kvs) = Inr (map snd kvs)"
| "py_values v = Inl AttributeError"

text \<open>The loop that keeps, for every anchor, the bubble view of its data (or \<^verbatim>\<open>None\<close>).\<close>

fun bubble_loop :: "(string \<times> json) list \<Rightarrow> (string \<times> json) list \<Rightarrow> py_error + (string \<times> json) list" where
  "bubble_loop [] acc = Inr acc"
| "bubble_loop ((anchor, data) # rest) acc =
     bind_result (py_get data (VISUALISER_ROOT @ ''.bubble_view'') JNull) (\<lambda>view.
     bubble_loop rest (dict_set acc anchor view))"

text \<open>
  \<^verbatim>\<open>extract_bubble_data\<close> on the lines \<^verbatim>\<open>handle.readlines()\<close> returns. The JSON parser
  \<^verbatim>\<open>json.loads\<close> is the parameter \<open>loads\<close>: \<open>None\<close> where it raises.
\<close>

definition extract_bubble_data :: "(string \<Rightarrow> json option) \<Rightarrow> string list \<Rightarrow> py_error + (string \<times> json) list" where
  "extract_bubble_data loads lines =
     (case skip_to_section lines of
        [] \<Rightarrow> Inl (ValueError ''Javascript data does not contain relevant results'')
      | line # rest \<Rightarrow>
          bind_result
            (case loads (section_text (relevant_section line rest)) of
               None \<Rightarrow> Inl JSONDecodeError | Some v \<Rightarrow> Inr v) (\<lambda>results_data.
          bind_result (py_items results_data) (\<lambda>items.
          bubble_loop items [])))"

section \<open>The per-directory merge: gather\_from\_files\<close>

text \<open>
  What \<^verbatim>\<open>open\<close> does on a path: it raises \<^verbatim>\<open>OSError\<close> with a message, or gives the
  handle.
\<close>

datatype 'a opened = OpenFails string | Opened 'a

fun py_open :: "'a opened \<Rightarrow> py_error + 'a" where
  "py_open (OpenFails msg) = Inl (OSError msg)"
| "py_open (Opened h) = Inr h"

text \<open>
  A path handed to \<^verbatim>\<open>gather_from_files\<close>: the files the pattern \<^verbatim>\<open>*.json\<close> matches
  under it, in the order \<^verbatim>\<open>glob\<close> lists them (none when the path is not a directory),
  each with what the JSON parser makes of it, and the file \<^verbatim>\<open>regions.js\<close> as its lines.
\<close>

record result_dir =
  dir_path :: string
  json_files :: "json option opened list"
  regions_js :: "string list opened"

text \<open>
  Dictionary keys and set elements: a list or a dictionary cannot be hashed, and
  \<^verbatim>\<open>True\<close> and \<^verbatim>\<open>False\<close> are the same key as 1 and 0.
\<close>

fun py_hashable :: "json \<Rightarrow> bool" where
  "py_hashable (JArr xs) = False"
| "py_hashable (JObj kvs) = False"
| "py_hashable v = True"

fun py_key :: "json \<Rightarrow> json" where
  "py_key (JBool b) = JInt (if b then 1 else 0)"
| "py_key v = v"

definition py_eq :: "json \<Rightarrow> json \<Rightarrow> bool" where
  "py_eq a b = (py_key a = py_key b)"

text \<open>\<^verbatim>\<open>d[key]\<close> and \<^verbatim>\<open>d.pop(key)\<close> on the items of a dictionary.\<close>

definition dict_getitem :: "(string \<times> json) list \<Rightarrow> string \<Rightarrow> py_error + json" where
  "dict_getitem d key = (case map_of d key of None \<Rightarrow> Inl KeyError | Some v \<Rightarrow> Inr v)"

fun dict_del :: "(string \<times> json) list \<Rightarrow> string \<Rightarrow> (string \<times> json) list" where
  "dict_del [] key = []"
| "dict_del ((k, w) # kvs) key = (if k = key then kvs else (k, w) # dict_del kvs key)"

definition dict_pop :: "(string \<times> json) list \<Rightarrow> string \<Rightarrow> py_error + (json \<times> (string \<times> json) list)" where
  "dict_pop d key = (case map_of d key of None \<Rightarrow> Inl KeyError | Some v \<Rightarrow> Inr (v, dict_del d key))"

text \<open>
  The set comprehension of the record names: the elements in the order they were first
  added. Adding a name hashes it.
\<close>

fun record_names_loop :: "areas \<Rightarrow> json list \<Rightarrow> py_error + json list" where
  "record_names_loop [] acc = Inr acc"
| "record_names_loop ((anchor, area) # rest) acc =
     bind_result (dict_getitem area ''name'') (\<lambda>name.
     if \<not> py_hashable name then Inl TypeError
     else record_names_loop rest (if py_key name \<in> set (map py_key acc) then acc else acc @ [name]))"

text \<open>
  The dictionary \<^verbatim>\<open>records\<close>: under every name, the name again and the list of the
  areas appended so far.
\<close>

type_synonym records = "(json \<times> (string \<times> json) list list) list"

text \<open>\<^verbatim>\<open>records[name]["areas"].append(area)\<close>.\<close>

fun records_append :: "records \<Rightarrow> json \<Rightarrow> (string \<times> json) list \<Rightarrow> py_error + records" where
  "records_append [] name area = Inl KeyError"
| "records_append ((n, as) # rest) name area =
     (if py_eq n name then Inr ((n, as @ [area]) # rest)
      else bind_result (records_append rest name area) (\<lambda>rest'. Inr ((n, as) # rest')))"

text \<open>\<^verbatim>\<open>xs[0]\<close>.\<close>

fun py_first :: "'a list \<Rightarrow> py_error + 'a" where
  "py_first [] = Inl IndexError"
| "py_first (x # xs) = Inr x"

text \<open>\<^verbatim>\<open>bubble_data.get(anchor)\<close>.\<close>

definition bubbles_of :: "(string \<times> json) list \<Rightarrow> string \<Rightarrow> json" where
  "bubbles_of bubble_data anchor = (case map_of bubble_data anchor of None \<Rightarrow> JNull | Some v \<Rightarrow> v)"

text \<open>
  The body of the loop over the items of \<^verbatim>\<open>areas\<close>, up to the append: the name is
  popped, the bubbles are looked up, and either the area is skipped (\<open>None\<close>) or it gets
  the first value of the bubbles and goes to the record of its name.
\<close>

definition merge_step ::
  "(string \<times> json) list \<Rightarrow> string \<times> (string \<times> json) list \<Rightarrow> py_error + (json \<times> (string \<times> json) list) option" where
  "merge_step bubble_data item =
     bind_result (dict_pop (snd item) ''name'') (\<lambda>(name, area).
     let bubbles = bubbles_of bubble_data (fst item) in
     if \<not> py_truthy bubbles then Inr None
     else
       bind_result (py_values bubbles) (\<lambda>values.
       bind_result (py_first values) (\<lambda>first.
       Inr (Some (name, dict_set area ''bubbles'' first)))))"

text \<open>The loop over the items of \<^verbatim>\<open>areas\<close>.\<close>

fun merge_loop :: "(string \<times> json) list \<Rightarrow> areas \<Rightarrow> records \<Rightarrow> py_error + records" where
  "merge_loop bubble_data [] records = Inr records"
| "merge_loop bubble_data (item # rest) records =
     bind_result (merge_step bubble_data item) (\<lambda>kept.
     case kept of
       None \<Rightarrow> merge_loop bubble_data rest records
     | Some (name, area) \<Rightarrow>
         bind_result (records_append records name area) (\<lambda>records'.
         merge_loop bubble_data rest records'))"

text \<open>
  The merge of the two extractors' results. A Python set has no defined iteration
  order: \<open>set_order\<close> is the order in which this run iterates over a set, given its
  elements in the order they were added.
\<close>

definition merge_areas :: "(json list \<Rightarrow> json list) \<Rightarrow> areas \<Rightarrow> (string \<times> json) list \<Rightarrow> py_error + records" where
  "merge_areas set_order areas bubble_data =
     bind_result (record_names_loop areas []) (\<lambda>record_names.
     bind_result (merge_loop bubble_data areas (map (\<lambda>name. (name, [])) (set_order record_names))) (\<lambda>records.
     Inr (filter (\<lambda>(name, as). as \<noteq> []) records)))"

definition gather_from_files :: "(string \<Rightarrow> json option) \<Rightarrow> (json list \<Rightarrow> json list) \<Rightarrow> result_dir \<Rightarrow> py_error + records" where
  "gather_from_files loads set_order input_dir =
     (case json_files input_dir of
        [] \<Rightarrow> Inl (InputError (''No results file ('*.json') in result directory: '' @ dir_path input_dir))
      | full_result_file # others \<Rightarrow>
          bind_result (py_open full_result_file) (\<lambda>handle.
          bind_result (get_areas handle) (\<lambda>areas.
          bind_result (py_open (regions_js input_dir)) (\<lambda>lines.
          bind_result (extract_bubble_data loads lines) (\<lambda>bubble_data.
          merge_areas set_order areas bubble_data)))))"

section \<open>The aggregator: process\_all\_results\<close>

fun gather_each :: "(string \<Rightarrow> json option) \<Rightarrow> (json list \<Rightarrow> json list) \<Rightarrow> result_dir list \<Rightarrow> py_error + records" where
  "gather_each loads set_order [] = Inr []"
| "gather_each loads set_order (input_dir # rest) =
     bind_result (gather_from_files loads set_order input_dir) (\<lambda>records.
     bind_result (gather_each loads set_order rest) (\<lambda>more.
     Inr (records @ more)))"

definition process_all_results :: "(string \<Rightarrow> json option) \<Rightarrow> (json list \<Rightarrow> json list) \<Rightarrow> result_dir list \<Rightarrow> py_error + records" where
  "process_all_results loads set_order input_dirs =
     (if input_dirs = [] then Inl (ValueError ''No result directories provided'')
      else gather_each loads set_order input_dirs)"

section \<open>The page generator: generate\_page\<close>

definition unlines :: "string list \<Rightarrow> string" where
  "unlines ls = concat (map (\<lambda>l. l @ [CHR 0x0A]) ls)"

definition HTML_TOP :: string where
  \<open>HTML_TOP = unlines
     ['''',
      ''<html lang="en">'',
      ''<head>'',
      ''  <meta charset="utf-8" />'',
      ''  <title>Collected modules from antiSMASH results</title>'',
      ''  <link rel="stylesheet" type="text/css" href="style.css">'',
      ''</head>'',
      ''<body>'']\<close>

definition HTML_BOTTOM :: string where
  \<open>HTML_BOTTOM = unlines
     ['''',
      ''  <script src="custom_antismash.js"></script>'',
      ''  <script src="data.js"></script>'',
      ''  <script src="jquery.js"></script>'',
      ''  <script>'',
      ''    $(document).ready(function() {'',
      ''        for (record of data) {'',
      ''            for (area of record.areas) {'',
      ''                console.log(area.anchor, area.bubbles);'',
      ''                viewer["actualDrawDomainBubbleData"](area.anchor, area.bubbles);'',
      ''            }'',
      ''        }'',
      ''    })'',
      ''  </script>'',
      ''</body>'',
      ''</html>'']\<close>

text \<open>\<^verbatim>\<open>", ".join(v)\<close>: \<open>v\<close> is iterated over, and every element must be a string.\<close>

fun strings_of :: "json list \<Rightarrow> py_error + string list" where
  "strings_of [] = Inr []"
| "strings_of (JStr s # rest) = bind_result (strings_of rest) (\<lambda>ss. Inr (s # ss))"
| "strings_of (v # rest) = Inl TypeError"

definition join_products :: "json \<Rightarrow> py_error + string" where
  "join_products v =
     bind_result (py_iter v) (\<lambda>xs.
     bind_result (strings_of xs) (\<lambda>ss.
     Inr (py_join '', '' ss)))"

text \<open>\<^verbatim>\<open>name.replace(".", "-")\<close>: only a string has the method.\<close>

fun name_replace :: "json \<Rightarrow> py_error + string" where
  "name_replace (JStr s) = Inr (py_replace ''.'' ''-'' s)"
| "name_replace v = Inl AttributeError"

text \<open>
  The body of the loop over the areas of a record: the area gets its \<^verbatim>\<open>anchor\<close>, and
  two elements are written. The result is the text written and the area as it is now.
\<close>

definition render_area :: "json \<Rightarrow> (string \<times> json) list \<Rightarrow> py_error + string \<times> (string \<times> json) list" where
  \<open>render_area name area =
     bind_result (name_replace name) (\<lambda>dashed.
     bind_result (dict_getitem area ''start'') (\<lambda>start.
     let area' = dict_set area ''anchor'' (JStr (dashed @ ''-'' @ py_str start)) in
     bind_result (dict_getitem area' ''anchor'') (\<lambda>a.
     let anchor = py_str a @ ''-domain-bubble-svg-container'';
         style = ''font-weight:bold; margin-bottom: -2em; margin-top: 2em;'' in
     bind_result (dict_getitem area' ''start'') (\<lambda>start'.
     bind_result (dict_getitem area' ''end'') (\<lambda>end'.
     let location = py_str start' @ ''-'' @ py_str end' in
     bind_result (dict_getitem area' ''products'') (\<lambda>ps.
     bind_result (join_products ps) (\<lambda>products.
     Inr (''  <div style="'' @ style @ ''">'' @ py_str name @ '': '' @ location @ '': '' @ products @ ''</div>''
            @ ''  <div id='' @ anchor @ ''></div>'',
          area'))))))))\<close>

fun render_areas :: "json \<Rightarrow> (string \<times> json) list list \<Rightarrow> py_error + string \<times> (string \<times> json) list list" where
  "render_areas name [] = Inr ([], [])"
| "render_areas name (area # rest) =
     bind_result (render_area name area) (\<lambda>(html, area').
     bind_result (render_areas name rest) (\<lambda>(html', rest').
     Inr (html @ html', area' # rest')))"

fun render_records :: "records \<Rightarrow> py_error + string \<times> records" where
  "render_records [] = Inr ([], [])"
| "render_records ((name, as) # rest) =
     bind_result (render_areas name as) (\<lambda>(html, as').
     bind_result (render_records rest) (\<lambda>(html', rest').
     Inr (html @ html', (name, as') # rest')))"

subsection \<open>The JSON encoder\<close>

text \<open>
  \<^verbatim>\<open>json.dump(v, handle, indent=n)\<close> with the encoder's defaults: every character
  outside the printable ASCII range is escaped, the items of a non-empty list or
  dictionary stand on lines of their own, indented by \<open>n\<close> spaces per level and
  separated by a comma, and a key is followed by a colon and a space.
\<close>

definition json_escape :: "char \<Rightarrow> string" where
  "json_escape c =
     (if c = CHR 0x22 then [CHR 0x5C, CHR 0x22]
      else if c = CHR 0x5C then [CHR 0x5C, CHR 0x5C]
      else if c = CHR 0x0A then [CHR 0x5C, CHR ''n'']
      else if c = CHR 0x0D then [CHR 0x5C, CHR ''r'']
      else if c = CHR 0x09 then [CHR 0x5C, CHR ''t'']
      else if c = CHR 0x08 then [CHR 0x5C, CHR ''b'']
      else if c = CHR 0x0C then [CHR 0x5C, CHR ''f'']
      else if 32 \<le> (of_char c :: nat) \<and> (of_char c :: nat) < 127 then [c]
      else [CHR 0x5C, CHR ''u'', CHR ''0'', CHR ''0'',
            digit_char (of_char c div 16), digit_char (of_char c mod 16)])"

definition json_string :: "string \<Rightarrow> string" where
  "json_string s = [CHR 0x22] @ concat (map json_escape s) @ [CHR 0x22]"

definition newline_indent :: "nat \<Rightarrow> nat \<Rightarrow> string" where
  "newline_indent indent level = CHR 0x0A # replicate (indent * level) CHR '' ''"

fun json_encode :: "nat \<Rightarrow> nat \<Rightarrow> json \<Rightarrow> string" where
  "json_encode indent level JNull = ''null''"
| "json_encode indent level (JBool b) = (if b then ''true'' else ''false'')"
| "json_encode indent level (JInt i) = str_int i"
| "json_encode indent level (JStr s) = json_string s"
| "json_encode indent level (JArr xs) =
     (if xs = [] then ''[]''
      else ''['' @ newline_indent indent (Suc level)
           @ py_join ('','' @ newline_indent indent (Suc level)) (map (json_encode indent (Suc level)) xs)
           @ newline_indent indent level @ '']'')"
| "json_encode indent level (JObj kvs) =
     (if kvs = [] then ''{}''
      else ''{'' @ newline_indent indent (Suc level)
           @ py_join ('','' @ newline_indent indent (Suc level))
               (map (\<lambda>(k, v). json_string k @ '': '' @ json_encode indent (Suc level) v) kvs)
           @ newline_indent indent level @ ''}'')"

definition json_dump :: "nat \<Rightarrow> json \<Rightarrow> string" where
  "json_dump indent v = json_encode indent 0 v"

text \<open>The list \<^verbatim>\<open>all_results\<close> as the value the encoder gets.\<close>

definition record_json :: "json \<times> (string \<times> json) list list \<Rightarrow> json" where
  "record_json r = JObj [(''name'', fst r), (''areas'', JArr (map JObj (snd r)))]"

definition results_json :: "records \<Rightarrow> json" where
  "results_json all_results = JArr (map record_json all_results)"

text \<open>
  The files of the output directory as \<^verbatim>\<open>generate_page\<close> leaves them: \<^verbatim>\<open>index.html\<close>,
  \<^verbatim>\<open>data.js\<close>, and then a copy of every file of the \<^verbatim>\<open>dependencies\<close> directory beside
  the script, given as \<open>deps\<close> (base name and content), which replaces a file of the
  same name. The writes are taken to succeed; what a failed run leaves behind is not
  modelled.
\<close>

fun copy_deps :: "(string \<times> string) list \<Rightarrow> (string \<times> string) list \<Rightarrow> (string \<times> string) list" where
  "copy_deps [] files = files"
| "copy_deps ((dep, content) # rest) files = copy_deps rest (dict_set files dep content)"

definition generate_page ::
  "(string \<Rightarrow> json option) \<Rightarrow> (json list \<Rightarrow> json list) \<Rightarrow> (string \<times> string) list \<Rightarrow> result_dir list
     \<Rightarrow> py_error + (string \<times> string) list" where
  "generate_page loads set_order deps inputs =
     bind_result (process_all_results loads set_order inputs) (\<lambda>all_results.
     bind_result (render_records all_results) (\<lambda>(html, all_results').
     Inr (copy_deps deps
            [(''index.html'', HTML_TOP @ html @ HTML_BOTTOM),
             (''data.js'', ''var data = '' @ json_dump 1 (results_json all_results') @ '';'')])))"

section \<open>The entry point: \_main\<close>

text \<open>
  What the entry point finds: whether the input path is a directory, whether the output
  path exists and is a directory, and the paths \<^verbatim>\<open>glob\<close> lists under the input path.
  Creating a missing output directory is taken to succeed.
\<close>

record cli_env =
  input_dir :: string
  input_is_dir :: bool
  output_exists :: bool
  output_is_dir :: bool
  result_files :: "result_dir list"

text \<open>
  The outcome of a call: the exit code returned or the exception that left the function,
  the text printed on the error stream, and the files written.
\<close>

record outcome =
  returned :: "py_error + int"
  err_stream :: string
  written :: "(string \<times> string) list"

text \<open>\<^verbatim>\<open>str(err)\<close> of an exception that carries a message.\<close>

fun error_text :: "py_error \<Rightarrow> string" where
  "error_text (InputError msg) = msg"
| "error_text (OSError msg) = msg"
| "error_text (ValueError msg) = msg"
| "error_text e = []"

text \<open>The exceptions of \<^verbatim>\<open>except (OSError, InputError)\<close>.\<close>

fun caught :: "py_error \<Rightarrow> bool" where
  "caught (InputError msg) = True"
| "caught (OSError msg) = True"
| "caught e = False"

definition main :: "(string \<Rightarrow> json option) \<Rightarrow> (json list \<Rightarrow> json list) \<Rightarrow> (string \<times> string) list \<Rightarrow> cli_env \<Rightarrow> outcome" where
  "main loads set_order deps env =
     (if \<not> input_is_dir env then
        \<lparr>returned = Inr 1,
         err_stream = ''Input is not a directory: '' @ input_dir env @ [CHR 0x0A],
         written = []\<rparr>
      else if output_exists env \<and> \<not> output_is_dir env then
        \<lparr>returned = Inr 1,
         err_stream = ''Input is not a directory: '' @ input_dir env @ [CHR 0x0A],
         written = []\<rparr>
      else
        (case generate_page loads set_order deps (result_files env) of
           Inr files \<Rightarrow> \<lparr>returned = Inr 0, err_stream = [], written = files\<rparr>
         | Inl err \<Rightarrow>
             if caught err
             then \<lparr>returned = Inr 1, err_stream = error_text err @ [CHR 0x0A], written = []\<rparr>
             else \<lparr>returned = Inl err, err_stream = [], written = []\<rparr>))"

section \<open>The script\<close>

text \<open>
  A run of the script, from the parsed arguments on: \<^verbatim>\<open>sys.exit(_main(...))\<close>. When
  \<^verbatim>\<open>_main\<close> returns, its value is the exit status. When an exception leaves \<^verbatim>\<open>_main\<close>,
  the interpreter prints it on the error stream and ends with exit status 1. What it
  prints ends with the message of the exception and a newline; \<open>traceback err\<close> is all it
  prints before that: the stack listing, which depends on where the script is installed,
  the name of the class, and for an exception whose message the model does not carry,
  that message.
\<close>

record process =
  exit_status :: int
  stderr :: string

definition script ::
  "(py_error \<Rightarrow> string) \<Rightarrow> (string \<Rightarrow> json option) \<Rightarrow> (json list \<Rightarrow> json list) \<Rightarrow> (string \<times> string) list
     \<Rightarrow> cli_env \<Rightarrow> process" where
  "script traceback loads set_order deps env =
     (case returned (main loads set_order deps env) of
        Inr code \<Rightarrow>
          \<lparr>exit_status = code, stderr = err_stream (main loads set_order deps env)\<rparr>
      | Inl err \<Rightarrow>
          \<lparr>exit_status = 1,
           stderr = err_stream (main loads set_order deps env)
                    @ traceback err @ error_text err @ [CHR 0x0A]\<rparr>)"

section \<open>Notions used to state the properties\<close>

text \<open>
  A results document of the expected shape: \<^verbatim>\<open>records\<close> is a list of dictionaries with
  an \<^verbatim>\<open>id\<close> and a list \<^verbatim>\<open>areas\<close> of dictionaries with \<^verbatim>\<open>start\<close>, \<^verbatim>\<open>end\<close> and
  \<^verbatim>\<open>products\<close>. The types of these values play no role in the extractor.
\<close>

fun has_fields :: "string list \<Rightarrow> json \<Rightarrow> bool" where
  "has_fields keys (JObj kvs) = list_all (\<lambda>k. map_of kvs k \<noteq> None) keys"
| "has_fields keys v = False"

fun list_field_all :: "(json \<Rightarrow> bool) \<Rightarrow> string \<Rightarrow> json \<Rightarrow> bool" where
  "list_field_all ok key (JObj kvs) =
     (case map_of kvs key of Some (JArr xs) \<Rightarrow> list_all ok xs | _ \<Rightarrow> False)"
| "list_field_all ok key v = False"

definition area_ok :: "json \<Rightarrow> bool" where
  "area_ok area = has_fields [''start'', ''end'', ''products''] area"

definition record_ok :: "json \<Rightarrow> bool" where
  "record_ok r = (has_fields [''id''] r \<and> list_field_all area_ok ''areas'' r)"

definition results_ok :: "json \<Rightarrow> bool" where
  "results_ok full_results = list_field_all record_ok ''records'' full_results"

text \<open>
  The merge, seen from an item of \<^verbatim>\<open>areas\<close> (an anchor and its area): the name under
  which the area was stored, whether the bubbles under its anchor pass the test
  \<^verbatim>\<open>if not bubbles\<close>, the value of the first variant of a dictionary of bubbles, and
  the area as the merge hands it on.
\<close>

definition area_name :: "(string \<times> json) list \<Rightarrow> json" where
  "area_name area = (case map_of area ''name'' of None \<Rightarrow> JNull | Some name \<Rightarrow> name)"

definition populated :: "(string \<times> json) list \<Rightarrow> string \<times> (string \<times> json) list \<Rightarrow> bool" where
  "populated bubble_data item = py_truthy (bubbles_of bubble_data (fst item))"

fun first_variant :: "json \<Rightarrow> json" where
  "first_variant (JObj ((k, v) # others)) = v"
| "first_variant v = JNull"

definition with_bubbles :: "(string \<times> json) list \<Rightarrow> string \<times> (string \<times> json) list \<Rightarrow> (string \<times> json) list" where
  "with_bubbles bubble_data item =
     dict_set (dict_del (snd item) ''name'') ''bubbles'' (first_variant (bubbles_of bubble_data (fst item)))"

text \<open>The areas the merge keeps for the record name \<open>n\<close>, in the order of \<^verbatim>\<open>areas\<close>.\<close>

definition kept_for :: "(string \<times> json) list \<Rightarrow> areas \<Rightarrow> json \<Rightarrow> (string \<times> json) list list" where
  "kept_for bubble_data areas n =
     map (with_bubbles bubble_data)
       (filter (\<lambda>item. populated bubble_data item \<and> py_eq n (area_name (snd item))) areas)"

text \<open>
  The iteration order of a set is some arrangement of its elements: whatever the order
  of a run is, it lists the elements it was given, each as often as it was given.
\<close>

definition set_iteration :: "(json list \<Rightarrow> json list) \<Rightarrow> bool" where
  "set_iteration set_order = (\<forall>xs. mset (set_order xs) = mset xs)"

text \<open>
  The area extractor, seen from the document: the records and the areas its loops go
  over, the dictionary it stores for an area, and the items it stores for the record at
  index \<open>i\<close>, in order.
\<close>

definition document_records :: "json \<Rightarrow> json list" where
  "document_records full_results =
     (case bind_result (py_getitem full_results ''records'') py_iter of
        Inr rs \<Rightarrow> rs | Inl e \<Rightarrow> [])"

definition record_areas :: "json \<Rightarrow> json list" where
  "record_areas r =
     (case bind_result (py_getitem r ''areas'') py_iter of Inr as \<Rightarrow> as | Inl e \<Rightarrow> [])"

definition area_count :: "json \<Rightarrow> nat" where
  "area_count r = length (record_areas r)"

definition area_dict :: "json \<Rightarrow> json \<Rightarrow> (string \<times> json) list" where
  "area_dict r area = (case make_area r area of Inr d \<Rightarrow> d | Inl e \<Rightarrow> [])"

definition record_entries :: "nat \<Rightarrow> json \<Rightarrow> areas" where
  "record_entries i r =
     map (\<lambda>(j, area). (area_anchor i j, area_dict r area)) (enumerate 0 (record_areas r))"

definition document_entries :: "nat \<Rightarrow> json list \<Rightarrow> areas" where
  "document_entries i rs = concat (map (\<lambda>(i, r). record_entries i r) (enumerate i rs))"

text \<open>The anchors of a document whose records have the given numbers of areas.\<close>

definition positional_anchors :: "nat list \<Rightarrow> string list" where
  "positional_anchors counts =
     concat (map (\<lambda>(i, n). map (area_anchor i) [0..<n]) (enumerate 0 counts))"

text \<open>
  The number of areas of the record \<open>r\<close> at index \<open>i\<close> whose bubbles, looked up under
  their anchors, pass the test \<^verbatim>\<open>if not bubbles\<close>.
\<close>

definition populated_count :: "(string \<times> json) list \<Rightarrow> nat \<Rightarrow> json \<Rightarrow> nat" where
  "populated_count bubble_data i r =
     length (filter (\<lambda>j. py_truthy (bubbles_of bubble_data (area_anchor i j))) [0..<area_count r])"

text \<open>
  The text for the parser as the specification words it: the lines joined by single
  spaces, without the trailing whitespace, and without one trailing semicolon if there
  is one.
\<close>

definition strip_one_semicolon :: "string \<Rightarrow> string" where
  "strip_one_semicolon s = (if s \<noteq> [] \<and> last s = CHR '';'' then butlast s else s)"

definition spec_section_text :: "string list \<Rightarrow> string" where
  "spec_section_text section = strip_one_semicolon (py_rstrip (py_join '' '' section))"

text \<open>
  The rendering, seen from one area: the area \<open>a'\<close> is the area \<open>a\<close> of the record named
  \<open>name\<close> with the \<^verbatim>\<open>anchor\<close> that the rendering adds, the name with hyphens for its
  periods, a hyphen and the start of the area.
\<close>

definition anchored :: "json \<Rightarrow> (string \<times> json) list \<Rightarrow> (string \<times> json) list \<Rightarrow> bool" where
  "anchored name a a' =
     (case (name, map_of a ''start'') of
        (JStr nm, Some start) \<Rightarrow>
          a' = dict_set a ''anchor'' (JStr (py_replace ''.'' ''-'' nm @ ''-'' @ py_str start))
      | _ \<Rightarrow> False)"

text \<open>
  The scan as the specification words it: the first line whose prefix is the marker with
  its final space, \<^verbatim>\<open>var resultsData = \<close>, and the extractor with that scan.
\<close>

fun spec_skip_to_section :: "string list \<Rightarrow> string list" where
  "spec_skip_to_section [] = []"
| "spec_skip_to_section (line # rest) =
     (if \<not> startswith line ''var resultsData = '' then spec_skip_to_section rest else line # rest)"

definition spec_extract_bubble_data ::
  "(string \<Rightarrow> json option) \<Rightarrow> string list \<Rightarrow> py_error + (string \<times> json) list" where
  "spec_extract_bubble_data loads lines =
     (case spec_skip_to_section lines of
        [] \<Rightarrow> Inl (ValueError ''Javascript data does not contain relevant results'')
      | line # rest \<Rightarrow>
          bind_result
            (case loads (section_text (relevant_section line rest)) of
               None \<Rightarrow> Inl JSONDecodeError | Some v \<Rightarrow> Inr v) (\<lambda>results_data.
          bind_result (py_items results_data) (\<lambda>items.
          bubble_loop items [])))"

section \<open>An example run\<close>

text \<open>
  A results document with two records, and the file \<^verbatim>\<open>regions.js\<close> that goes with it.
  The parser of the example knows the one text this file holds.
\<close>

definition example_results :: json where
  "example_results =
     JObj [(''schema'', JInt 3),
           (''records'', JArr [
              JObj [(''id'', JStr ''rec.1''),
                    (''areas'', JArr [
                       JObj [(''start'', JInt 1), (''end'', JInt 10),
                             (''products'', JArr [JStr ''nrps'', JStr ''t1pks''])],
                       JObj [(''start'', JInt 20), (''end'', JInt 30),
                             (''products'', JArr [JStr ''nrps''])]])],
              JObj [(''id'', JStr ''rec.2''),
                    (''areas'', JArr [
                       JObj [(''start'', JInt 5), (''end'', JInt 7), (''products'', JArr [])]])]])]"

text \<open>The same document with other identifiers and the products in another order.\<close>

definition example_results_changed :: json where
  "example_results_changed =
     JObj [(''schema'', JInt 3),
           (''records'', JArr [
              JObj [(''id'', JStr ''contig_9''),
                    (''areas'', JArr [
                       JObj [(''start'', JInt 1), (''end'', JInt 10),
                             (''products'', JArr [JStr ''t1pks'', JStr ''nrps''])],
                       JObj [(''start'', JInt 20), (''end'', JInt 30),
                             (''products'', JArr [JStr ''nrps''])]])],
              JObj [(''id'', JStr ''contig_3''),
                    (''areas'', JArr [
                       JObj [(''start'', JInt 5), (''end'', JInt 7), (''products'', JArr [])]])]])]"

definition example_regions :: "string list" where
  \<open>example_regions =
     [''var recordData = [];\<newline>'',
      ''var resultsData = {"r1c1": {"antismash.outputs.html.visualisers.bubble_view": {"CC1": {"modules": 2}, "CC2": {"modules": 1}}, "other": 0},\<newline>'',
      '' "r1c2": {"other": 1},\<newline>'',
      '' "r2c1": {"antismash.outputs.html.visualisers.bubble_view": {}}};\<newline>'',
      ''var all_regions = {};\<newline>'']\<close>

definition example_text :: string where
  \<open>example_text =
     ''{"r1c1": {"antismash.outputs.html.visualisers.bubble_view": {"CC1": {"modules": 2}, "CC2": {"modules": 1}}, "other": 0},\<newline>''
     @ ''  "r1c2": {"other": 1},\<newline>''
     @ ''  "r2c1": {"antismash.outputs.html.visualisers.bubble_view": {}}}''\<close>

definition example_results_data :: json where
  "example_results_data =
     JObj [(''r1c1'', JObj [(''antismash.outputs.html.visualisers.bubble_view'',
                               JObj [(''CC1'', JObj [(''modules'', JInt 2)]),
                                     (''CC2'', JObj [(''modules'', JInt 1)])]),
                            (''other'', JInt 0)]),
           (''r1c2'', JObj [(''other'', JInt 1)]),
           (''r2c1'', JObj [(''antismash.outputs.html.visualisers.bubble_view'', JObj [])])]"

definition example_loads :: "string \<Rightarrow> json option" where
  "example_loads s = (if s = example_text then Some example_results_data else None)"

definition example_dir :: result_dir where
  "example_dir =
     \<lparr>dir_path = ''in/run1'',
      json_files = [Opened (Some example_results)],
      regions_js = Opened example_regions\<rparr>"

text \<open>What the two extractors return on the example.\<close>

definition example_areas :: areas where
  "example_areas =
     [(''r1c1'', [(''name'', JStr ''rec.1''), (''start'', JInt 1), (''end'', JInt 10),
                  (''products'', JArr [JStr ''nrps'', JStr ''t1pks''])]),
      (''r1c2'', [(''name'', JStr ''rec.1''), (''start'', JInt 20), (''end'', JInt 30),
                  (''products'', JArr [JStr ''nrps''])]),
      (''r2c1'', [(''name'', JStr ''rec.2''), (''start'', JInt 5), (''end'', JInt 7),
                  (''products'', JArr [])])]"

definition example_bubble_data :: "(string \<times> json) list" where
  "example_bubble_data =
     [(''r1c1'', JObj [(''CC1'', JObj [(''modules'', JInt 2)]), (''CC2'', JObj [(''modules'', JInt 1)])]),
      (''r1c2'', JNull),
      (''r2c1'', JObj [])]"

text \<open>A document with two records of the same identifier, and bubbles for both.\<close>

definition example_twins :: json where
  "example_twins =
     JObj [(''schema'', JInt 2),
           (''records'', JArr [
              JObj [(''id'', JStr ''rec.1''),
                    (''areas'', JArr [
                       JObj [(''start'', JInt 1), (''end'', JInt 10), (''products'', JArr [])]])],
              JObj [(''id'', JStr ''rec.1''),
                    (''areas'', JArr [
                       JObj [(''start'', JInt 5), (''end'', JInt 7), (''products'', JArr [])]])]])]"

definition example_twins_areas :: areas where
  "example_twins_areas =
     [(''r1c1'', [(''name'', JStr ''rec.1''), (''start'', JInt 1), (''end'', JInt 10),
                  (''products'', JArr [])]),
      (''r2c1'', [(''name'', JStr ''rec.1''), (''start'', JInt 5), (''end'', JInt 7),
                  (''products'', JArr [])])]"

definition example_twins_bubbles :: "(string \<times> json) list" where
  "example_twins_bubbles =
     [(''r1c1'', JObj [(''CC1'', JInt 1)]), (''r2c1'', JObj [(''CC1'', JInt 2)])]"

text \<open>The data file of the example run, line by line.\<close>

definition example_data_js :: string where
  \<open>example_data_js = py_join [CHR 0x0A]
     [''var data = ['',
      '' {'',
      ''  "name": "rec.1",'',
      ''  "areas": ['',
      ''   {'',
      ''    "start": 1,'',
      ''    "end": 10,'',
      ''    "products": ['',
      ''     "nrps",'',
      ''     "t1pks"'',
      ''    ],'',
      ''    "bubbles": {'',
      ''     "modules": 2'',
      ''    },'',
      ''    "anchor": "rec-1-1"'',
      ''   }'',
      ''  ]'',
      '' }'',
      ''];'']\<close>

text \<open>A directory whose \<^verbatim>\<open>regions.js\<close> has no line that starts with the marker.\<close>

definition example_unmarked_dir :: result_dir where
  "example_unmarked_dir =
     \<lparr>dir_path = ''in/run2'',
      json_files = [Opened (Some example_results)],
      regions_js = Opened [''var recordData = [];\<newline>'', ''var all_regions = {};\<newline>'']\<rparr>"

text \<open>
  The file of the example with one more line before the others: an assignment to the
  same name written without a space after the equals sign.
\<close>

definition example_regions_unspaced :: "string list" where
  "example_regions_unspaced = ''var resultsData ={};\<newline>'' # example_regions"

definition example_unspaced_dir :: result_dir where
  "example_unspaced_dir =
     \<lparr>dir_path = ''in/run3'',
      json_files = [Opened (Some example_results)],
      regions_js = Opened example_regions_unspaced\<rparr>"

section \<open>Raising and returning\<close>

lemma bind_result_Inl_iff:
  "bind_result r f = Inl e \<longleftrightarrow> r = Inl e \<or> (\<exists>x. r = Inr x \<and> f x = Inl e)"
  by (cases r) auto

lemma bind_result_Inr_iff:
  "bind_result r f = Inr y \<longleftrightarrow> (\<exists>x. r = Inr x \<and> f x = Inr y)"
  by (cases r) auto

lemma str_nat_digit: "n < 10 \<Longrightarrow> str_nat n = [digit_char n]"
  by (simp add: str_nat.simps)

lemma str_int_0: "str_int 0 = ''0''"
  by (simp add: str_int_def str_nat_digit digit_char_def)

lemma map_of_dict_set:
  "map_of (dict_set kvs k v) k' = (if k' = k then Some v else map_of kvs k')"
  by (induction kvs) auto

section \<open>The schema check of the area extractor\<close>

text \<open>
  C10. When the results document is a dictionary without a \<^verbatim>\<open>schema\<close> key, the area
  extractor does not fail on the access: it takes the version to be 0 and raises the
  \<^verbatim>\<open>InputError\<close> for an incompatible schema version, the same error as for a document
  whose \<^verbatim>\<open>schema\<close> is the integer 0.
\<close>

theorem get_areas_missing_schema:
  "map_of kvs ''schema'' = None \<Longrightarrow>
     get_areas (Some (JObj kvs))
       = Inl (InputError ''incompatible antiSMASH results file schema version: 0'')
     \<and> get_areas (Some (JObj kvs)) = get_areas (Some (JObj ((''schema'', JInt 0) # kvs)))"
  by (simp add: get_areas_def schema_message_def str_int_0)

theorem get_areas_missing_schema_witness:
  "get_areas (Some (JObj [(''records'', JArr [])]))
     = Inl (InputError ''incompatible antiSMASH results file schema version: 0'')
   \<and> get_areas (Some (JObj [(''records'', JArr [])]))
     = get_areas (Some (JObj [(''schema'', JInt 0), (''records'', JArr [])]))"
  by (rule get_areas_missing_schema) simp

lemma py_getitem_no_InputError: "py_getitem v key \<noteq> Inl (InputError msg)"
  by (cases v) (auto split: option.splits)

lemma py_iter_no_InputError: "py_iter v \<noteq> Inl (InputError msg)"
  by (cases v) auto

lemma make_area_no_InputError: "make_area r a \<noteq> Inl (InputError msg)"
  by (auto simp: make_area_def bind_result_Inl_iff py_getitem_no_InputError)

lemma areas_loop_no_InputError: "areas_loop r rc c as acc \<noteq> Inl (InputError msg)"
  by (induction as arbitrary: c acc) (auto simp: bind_result_Inl_iff make_area_no_InputError)

lemma records_loop_no_InputError: "records_loop r rs acc \<noteq> Inl (InputError msg)"
  by (induction rs arbitrary: r acc)
     (auto simp: bind_result_Inl_iff py_getitem_no_InputError py_iter_no_InputError
        areas_loop_no_InputError)

lemma make_area_ok:
  "has_fields [''id''] r \<Longrightarrow> area_ok area \<Longrightarrow> \<exists>d. make_area r area = Inr d"
  by (cases r; cases area) (auto simp: make_area_def area_ok_def)

lemma areas_loop_ok:
  "has_fields [''id''] r \<Longrightarrow> list_all area_ok as \<Longrightarrow>
     \<exists>acc'. areas_loop r_index r c_index as acc = Inr acc'"
proof (induction as arbitrary: c_index acc)
  case Nil
  then show ?case by simp
next
  case (Cons a as)
  from Cons.prems obtain d where "make_area r a = Inr d"
    using make_area_ok by fastforce
  with Cons show ?case by simp
qed

lemma records_loop_ok:
  "list_all record_ok rs \<Longrightarrow> \<exists>acc'. records_loop r_index rs acc = Inr acc'"
proof (induction rs arbitrary: r_index acc)
  case Nil
  then show ?case by simp
next
  case (Cons r rs)
  from Cons.prems have ok: "record_ok r" and rest: "list_all record_ok rs" by simp_all
  from ok obtain kvs as where r: "r = JObj kvs" and ar: "map_of kvs ''areas'' = Some (JArr as)"
    and as: "list_all area_ok as" and idf: "has_fields [''id''] r"
    by (cases r) (auto simp: record_ok_def split: option.splits json.splits)
  from areas_loop_ok [OF idf as] obtain acc1 where "areas_loop r_index r 0 as acc = Inr acc1"
    by blast
  with r ar Cons.IH [OF rest] show ?case by simp
qed

text \<open>
  C2, as the code has it. For a document whose \<^verbatim>\<open>schema\<close> is an integer other than 2
  and 3, the area extractor raises the \<^verbatim>\<open>InputError\<close> whose message names the
  incompatible version. For 2 and 3 it never raises an \<^verbatim>\<open>InputError\<close>, and it returns
  when the document has the expected shape; the extractor validates nothing else, and a
  document without the fields it reads makes it fail on the access.
\<close>

theorem get_areas_schema:
  assumes "map_of kvs ''schema'' = Some (JInt s)"
  shows "(s \<noteq> 2 \<and> s \<noteq> 3 \<longrightarrow>
            get_areas (Some (JObj kvs))
              = Inl (InputError (''incompatible antiSMASH results file schema version: '' @ str_int s)))
       \<and> ((s = 2 \<or> s = 3) \<longrightarrow> (\<forall>msg. get_areas (Some (JObj kvs)) \<noteq> Inl (InputError msg)))
       \<and> ((s = 2 \<or> s = 3) \<and> results_ok (JObj kvs) \<longrightarrow> (\<exists>areas. get_areas (Some (JObj kvs)) = Inr areas))"
proof -
  have 1: "py_get (JObj kvs) ''schema'' (JInt 0) = Inr (JInt s)"
    using assms by simp
  have bad: "get_areas (Some (JObj kvs))
              = Inl (InputError (''incompatible antiSMASH results file schema version: '' @ str_int s))"
    if "s \<noteq> 2 \<and> s \<noteq> 3"
  proof -
    from that have "\<not> (2 \<le> s \<and> s \<le> 3)" by arith
    then show ?thesis
      using 1 by (simp add: get_areas_def schema_message_def)
  qed
  have good: "get_areas (Some (JObj kvs))
      = bind_result (py_getitem (JObj kvs) ''records'') (\<lambda>records.
        bind_result (py_iter records) (\<lambda>rs. records_loop 0 rs []))"
    if "s = 2 \<or> s = 3"
    using that 1 by (auto simp: get_areas_def)
  show ?thesis
  proof (intro conjI impI allI)
    assume "s \<noteq> 2 \<and> s \<noteq> 3"
    then show "get_areas (Some (JObj kvs))
              = Inl (InputError (''incompatible antiSMASH results file schema version: '' @ str_int s))"
      by (rule bad)
  next
    fix msg
    assume "s = 2 \<or> s = 3"
    then show "get_areas (Some (JObj kvs)) \<noteq> Inl (InputError msg)"
      using records_loop_no_InputError [of 0 _ "[]" msg]
      by (auto simp: good bind_result_Inl_iff py_iter_no_InputError split: option.splits)
  next
    assume a: "(s = 2 \<or> s = 3) \<and> results_ok (JObj kvs)"
    then obtain rs where "map_of kvs ''records'' = Some (JArr rs)" and "list_all record_ok rs"
      by (auto simp: results_ok_def split: option.splits json.splits)
    with records_loop_ok [of rs 0 "[]"] a show "\<exists>areas. get_areas (Some (JObj kvs)) = Inr areas"
      by (auto simp: good)
  qed
qed

theorem get_areas_schema_witness:
  "get_areas (Some (JObj [(''schema'', JInt 5), (''records'', JArr [])]))
     = Inl (InputError ''incompatible antiSMASH results file schema version: 5'')
   \<and> (\<exists>areas. get_areas (Some (JObj [(''schema'', JInt 3), (''records'', JArr [
        JObj [(''id'', JStr ''rec1''), (''areas'', JArr [
          JObj [(''start'', JInt 1), (''end'', JInt 9), (''products'', JArr [JStr ''nrps''])]])]])])) = Inr areas)"
proof -
  have 5: "str_int 5 = ''5''"
    by (simp add: str_int_def str_nat_digit digit_char_def)
  show ?thesis
    using get_areas_schema [of "[(''schema'', JInt 5), (''records'', JArr [])]" 5]
      get_areas_schema [of "[(''schema'', JInt 3), (''records'', JArr [
        JObj [(''id'', JStr ''rec1''), (''areas'', JArr [
          JObj [(''start'', JInt 1), (''end'', JInt 9), (''products'', JArr [JStr ''nrps''])]])]])]" 3]
    by (simp add: 5 results_ok_def record_ok_def area_ok_def)
qed

text \<open>
  A document with \<^verbatim>\<open>schema\<close> 2 and no \<^verbatim>\<open>records\<close>: the version check passes and the
  extractor fails on the access to \<^verbatim>\<open>records\<close>.
\<close>

theorem get_areas_schema_2_fails:
  "get_areas (Some (JObj [(''schema'', JInt 2)])) = Inl KeyError"
  by (simp add: get_areas_def)

section \<open>The merge loop\<close>

lemma dict_pop_name:
  "dict_pop area ''name'' = Inr (name, area') \<Longrightarrow>
     name = area_name area \<and> area' = dict_del area ''name''"
  by (auto simp: dict_pop_def area_name_def split: option.splits)

lemma truthy_values:
  "py_truthy bubbles \<Longrightarrow> py_values bubbles = Inr values \<Longrightarrow>
     \<exists>k v others. bubbles = JObj ((k, v) # others) \<and> values = v # map snd others"
  by (cases bubbles) (auto simp: neq_Nil_conv)

lemma merge_step_None:
  "merge_step bubble_data item = Inr None \<Longrightarrow> \<not> populated bubble_data item"
  by (auto simp: merge_step_def populated_def bind_result_Inr_iff Let_def split: if_splits)

lemma merge_step_Some:
  assumes "merge_step bubble_data item = Inr (Some (name, area))"
  shows "populated bubble_data item \<and> name = area_name (snd item)
         \<and> area = with_bubbles bubble_data item"
proof -
  from assms obtain nm area' where pop: "dict_pop (snd item) ''name'' = Inr (nm, area')"
    and rest: "(if \<not> py_truthy (bubbles_of bubble_data (fst item)) then Inr None
         else bind_result (py_values (bubbles_of bubble_data (fst item))) (\<lambda>values.
              bind_result (py_first values) (\<lambda>first.
              Inr (Some (nm, dict_set area' ''bubbles'' first))))) = Inr (Some (name, area))"
    by (auto simp: merge_step_def bind_result_Inr_iff Let_def)
  from rest have t: "py_truthy (bubbles_of bubble_data (fst item))"
    by (auto split: if_splits)
  with rest obtain vals v1 where vs: "py_values (bubbles_of bubble_data (fst item)) = Inr vals"
    and f: "py_first vals = Inr v1" and eq: "name = nm" "area = dict_set area' ''bubbles'' v1"
    by (auto simp: bind_result_Inr_iff)
  from truthy_values [OF t vs] f have "v1 = first_variant (bubbles_of bubble_data (fst item))"
    by auto
  with dict_pop_name [OF pop] t eq show ?thesis
    by (simp add: populated_def with_bubbles_def)
qed

lemma py_eq_sym: "py_eq a b = py_eq b a"
  by (auto simp: py_eq_def)

lemma records_append_Inr:
  "records_append records name area = Inr records' \<Longrightarrow> distinct (map (\<lambda>r. py_key (fst r)) records) \<Longrightarrow>
     records' = map (\<lambda>(n, as). (n, if py_eq n name then as @ [area] else as)) records"
proof (induction records arbitrary: records')
  case Nil
  then show ?case by simp
next
  case (Cons r records)
  obtain n as where r: "r = (n, as)" by (cases r)
  show ?case
  proof (cases "py_eq n name")
    case True
    with Cons.prems r have "\<forall>x \<in> set records. \<not> py_eq (fst x) name"
      by (force simp: py_eq_def)
    then have "map (\<lambda>(n, as). (n, if py_eq n name then as @ [area] else as)) records = records"
      by (induction records) auto
    with True Cons.prems r show ?thesis by simp
  next
    case False
    with Cons.prems r obtain rest' where "records_append records name area = Inr rest'"
      and "records' = (n, as) # rest'"
      by (auto simp: bind_result_Inr_iff)
    with Cons.IH [of rest'] Cons.prems False r show ?thesis by simp
  qed
qed

lemma merge_loop_Inr:
  "merge_loop bubble_data areas records = Inr out \<Longrightarrow>
   distinct (map (\<lambda>r. py_key (fst r)) records) \<Longrightarrow>
     out = map (\<lambda>(n, as). (n, as @ kept_for bubble_data areas n)) records"
proof (induction areas arbitrary: records out)
  case Nil
  then show ?case by (simp add: kept_for_def)
next
  case (Cons item areas)
  from Cons.prems(1) obtain kept where step: "merge_step bubble_data item = Inr kept"
    and rest: "(case kept of None \<Rightarrow> merge_loop bubble_data areas records
         | Some (name, area) \<Rightarrow>
             bind_result (records_append records name area) (\<lambda>records'.
             merge_loop bubble_data areas records')) = Inr out"
    by (auto simp: bind_result_Inr_iff)
  show ?case
  proof (cases kept)
    case None
    with step have "\<not> populated bubble_data item" by (simp add: merge_step_None)
    then have "kept_for bubble_data (item # areas) n = kept_for bubble_data areas n" for n
      by (simp add: kept_for_def)
    with Cons.IH [of records out] rest None Cons.prems(2) show ?thesis by simp
  next
    case (Some p)
    obtain name area where p: "p = (name, area)" by (cases p)
    from merge_step_Some [of bubble_data item name area] step Some p
    have pop: "populated bubble_data item" and name: "name = area_name (snd item)"
      and area: "area = with_bubbles bubble_data item"
      by simp_all
    from rest Some p obtain records' where app: "records_append records name area = Inr records'"
      and loop: "merge_loop bubble_data areas records' = Inr out"
      by (auto simp: bind_result_Inr_iff)
    from records_append_Inr [OF app Cons.prems(2)]
    have r': "records' = map (\<lambda>(n, as). (n, if py_eq n name then as @ [area] else as)) records" .
    then have "map (\<lambda>r. py_key (fst r)) records' = map (\<lambda>r. py_key (fst r)) records"
      by (auto simp: comp_def case_prod_beta)
    with Cons.prems(2) have "distinct (map (\<lambda>r. py_key (fst r)) records')" by simp
    from Cons.IH [OF loop this]
    have "out = map (\<lambda>(n, as). (n, as @ kept_for bubble_data areas n)) records'" .
    moreover have "kept_for bubble_data (item # areas) n
        = (if py_eq n name then area # kept_for bubble_data areas n else kept_for bubble_data areas n)" for n
      using pop name area by (simp add: kept_for_def)
    ultimately show ?thesis
      by (simp add: r' comp_def case_prod_beta)
  qed
qed

lemma record_names_loop_Inr:
  "record_names_loop areas acc = Inr names \<Longrightarrow> distinct (map py_key acc) \<Longrightarrow>
     distinct (map py_key names)
     \<and> set names \<subseteq> set acc \<union> (\<lambda>item. area_name (snd item)) ` set areas
     \<and> py_key ` set names = py_key ` set acc \<union> (\<lambda>item. py_key (area_name (snd item))) ` set areas"
proof (induction areas arbitrary: acc)
  case Nil
  then show ?case by auto
next
  case (Cons item areas)
  obtain anchor area where item: "item = (anchor, area)" by (cases item)
  from Cons.prems(1) item obtain name where nm: "dict_getitem area ''name'' = Inr name"
    and loop: "record_names_loop areas (if py_key name \<in> set (map py_key acc) then acc else acc @ [name]) = Inr names"
    by (auto simp: bind_result_Inr_iff split: if_splits)
  from nm have name: "name = area_name area"
    by (auto simp: dict_getitem_def area_name_def split: option.splits)
  let ?acc = "if py_key name \<in> set (map py_key acc) then acc else acc @ [name]"
  from Cons.prems(2) have d: "distinct (map py_key ?acc)" by auto
  from Cons.IH [OF loop d] show ?case
    using item name by (auto split: if_splits)
qed

lemma merge_areas_Inr:
  assumes "merge_areas set_order areas bubble_data = Inr out" and "set_iteration set_order"
  shows "\<exists>names. record_names_loop areas [] = Inr names
           \<and> distinct (map py_key (set_order names))
           \<and> set (set_order names) = set names
           \<and> out = filter (\<lambda>(n, as). as \<noteq> [])
                      (map (\<lambda>n. (n, kept_for bubble_data areas n)) (set_order names))"
proof -
  from assms(1) obtain names records where n: "record_names_loop areas [] = Inr names"
    and l: "merge_loop bubble_data areas (map (\<lambda>name. (name, [])) (set_order names)) = Inr records"
    and o: "out = filter (\<lambda>(name, as). as \<noteq> []) records"
    by (auto simp: merge_areas_def bind_result_Inr_iff)
  from record_names_loop_Inr [OF n] have "distinct (map py_key names)" by simp
  moreover from assms(2) have m: "mset (set_order names) = mset names"
    by (simp add: set_iteration_def)
  then have "mset (map py_key (set_order names)) = mset (map py_key names)"
    by simp
  ultimately have d: "distinct (map py_key (set_order names))"
    by (metis mset_eq_imp_distinct_iff)
  then have "distinct (map (\<lambda>r. py_key (fst r)) (map (\<lambda>name. (name, [] :: (string \<times> json) list list)) (set_order names)))"
    by (simp add: comp_def)
  from merge_loop_Inr [OF l this]
  have "records = map (\<lambda>n. (n, kept_for bubble_data areas n)) (set_order names)"
    by (simp add: comp_def)
  with n d o m show ?thesis
    by (auto dest: mset_eq_setD)
qed

section \<open>The example run, evaluated\<close>

lemma str_nat_1: "str_nat (Suc 0) = ''1''"
  by (simp add: str_nat_digit digit_char_def)

lemma str_nat_2: "str_nat (Suc (Suc 0)) = ''2''"
  by (simp add: str_nat_digit digit_char_def)

lemma example_get_areas: "get_areas (Some example_results) = Inr example_areas"
  by (simp add: get_areas_def example_results_def example_areas_def make_area_def area_anchor_def
      str_nat_1 str_nat_2)

lemma example_extract: "extract_bubble_data example_loads example_regions = Inr example_bubble_data"
  by (simp add: extract_bubble_data_def example_regions_def example_text_def section_text_def
      relevant_section_def startswith_def py_rstrip_def py_rstrip_chars_def py_isspace_def
      example_loads_def example_results_data_def example_bubble_data_def VISUALISER_ROOT_def)

lemma example_merge:
  "merge_areas (\<lambda>xs. xs) example_areas example_bubble_data
     = Inr [(JStr ''rec.1'', [[(''start'', JInt 1), (''end'', JInt 10),
                               (''products'', JArr [JStr ''nrps'', JStr ''t1pks'']),
                               (''bubbles'', JObj [(''modules'', JInt 2)])]])]"
  by (simp add: merge_areas_def example_areas_def example_bubble_data_def dict_getitem_def
      merge_step_def dict_pop_def bubbles_of_def py_eq_def)

lemma example_gather:
  "gather_from_files example_loads (\<lambda>xs. xs) example_dir
     = Inr [(JStr ''rec.1'', [[(''start'', JInt 1), (''end'', JInt 10),
                               (''products'', JArr [JStr ''nrps'', JStr ''t1pks'']),
                               (''bubbles'', JObj [(''modules'', JInt 2)])]])]"
  by (simp add: gather_from_files_def example_dir_def example_get_areas example_extract example_merge)

lemma set_iteration_id: "set_iteration (\<lambda>xs. xs)"
  by (simp add: set_iteration_def)

section \<open>Which areas the merge keeps\<close>

lemma concat_nonempty:
  "concat (map snd (filter (\<lambda>(n, as). as \<noteq> []) records)) = concat (map snd records)"
  by (induction records) auto

lemma sum_list_single_key:
  "distinct (map g names) \<Longrightarrow> k \<in> set (map g names) \<Longrightarrow>
     (\<Sum>n\<leftarrow>names. if g n = k then {#x#} else {#}) = {#x#}"
proof (induction names)
  case Nil
  then show ?case by simp
next
  case (Cons n names)
  show ?case
  proof (cases "g n = k")
    case True
    from Cons.prems(1) have "g n \<notin> g ` set names" by simp
    with True have "\<forall>m \<in> set names. g m \<noteq> k" by blast
    then have "(\<Sum>n\<leftarrow>names. if g n = k then {#x#} else {#}) = {#}"
      by (induction names) auto
    with True show ?thesis by simp
  next
    case False
    with Cons show ?thesis by auto
  qed
qed

lemma partition_by_key:
  "distinct (map g names) \<Longrightarrow> \<forall>i \<in> set items. h i \<in> set (map g names) \<Longrightarrow>
     mset (concat (map (\<lambda>n. filter (\<lambda>i. g n = h i) items) names)) = mset items"
proof (induction items)
  case Nil
  then show ?case by (simp add: mset_concat comp_def)
next
  case (Cons i items)
  have "mset (concat (map (\<lambda>n. filter (\<lambda>i. g n = h i) (i # items)) names))
      = (\<Sum>n\<leftarrow>names. (if g n = h i then {#i#} else {#}) + mset (filter (\<lambda>i. g n = h i) items))"
    by (induction names) auto
  also have "\<dots> = (\<Sum>n\<leftarrow>names. if g n = h i then {#i#} else {#})
      + (\<Sum>n\<leftarrow>names. mset (filter (\<lambda>i. g n = h i) items))"
    by (simp add: sum_list_addf)
  also have "(\<Sum>n\<leftarrow>names. if g n = h i then {#i#} else {#}) = {#i#}"
    using Cons.prems by (intro sum_list_single_key) auto
  also have "(\<Sum>n\<leftarrow>names. mset (filter (\<lambda>i. g n = h i) items)) = mset items"
    using Cons by (simp add: mset_concat comp_def)
  finally show ?case by simp
qed

lemma kept_areas_mset:
  assumes "merge_areas set_order areas bubble_data = Inr out" and "set_iteration set_order"
  shows "mset (concat (map snd out))
       = mset (map (with_bubbles bubble_data) (filter (populated bubble_data) areas))"
proof -
  from merge_areas_Inr [OF assms] obtain names where n: "record_names_loop areas [] = Inr names"
    and d: "distinct (map py_key (set_order names))" and s: "set (set_order names) = set names"
    and o: "out = filter (\<lambda>(n, as). as \<noteq> [])
                    (map (\<lambda>n. (n, kept_for bubble_data areas n)) (set_order names))"
    by blast
  let ?items = "filter (populated bubble_data) areas"
  from record_names_loop_Inr [OF n]
  have "py_key ` set names = (\<lambda>item. py_key (area_name (snd item))) ` set areas"
    by simp
  with s have cover: "\<forall>i \<in> set ?items. py_key (area_name (snd i)) \<in> set (map py_key (set_order names))"
    by auto
  have k: "kept_for bubble_data areas n
      = map (with_bubbles bubble_data) (filter (\<lambda>i. py_key n = py_key (area_name (snd i))) ?items)" for n
    by (simp add: kept_for_def py_eq_def conj_commute)
  have "concat (map snd out)
      = map (with_bubbles bubble_data)
          (concat (map (\<lambda>n. filter (\<lambda>i. py_key n = py_key (area_name (snd i))) ?items) (set_order names)))"
    by (simp add: o concat_nonempty comp_def k map_concat)
  then show ?thesis
    using partition_by_key [OF d cover] by simp
qed

lemma merge_step_skip:
  "map_of (snd item) ''name'' = Some name \<Longrightarrow> \<not> py_truthy (bubbles_of bubble_data (fst item)) \<Longrightarrow>
     merge_step bubble_data item = Inr None"
  by (simp add: merge_step_def dict_pop_def)

lemma merge_step_keep:
  "map_of (snd item) ''name'' = Some name \<Longrightarrow>
   bubbles_of bubble_data (fst item) = JObj ((k, v) # others) \<Longrightarrow>
     merge_step bubble_data item
       = Inr (Some (name, dict_set (dict_del (snd item) ''name'') ''bubbles'' v))"
  by (simp add: merge_step_def dict_pop_def)

text \<open>
  C3, as the code has it. The test is on the dictionary of variants under the area's
  anchor, not on the value of its first variant. An area whose anchor is absent from the
  bubble data, or whose dictionary of variants is absent, empty or otherwise falsy, is
  skipped; an area whose dictionary of variants is not empty is kept, with \<^verbatim>\<open>bubbles\<close> set
  to the value of the first variant, whatever that value is. The areas of the records the
  merge returns are exactly the kept areas, each once.
\<close>

theorem merge_keeps_populated:
  "(map_of (snd item) ''name'' = Some name \<longrightarrow>
      (map_of bubble_data (fst item) = None \<longrightarrow> merge_step bubble_data item = Inr None)
    \<and> (\<not> py_truthy (bubbles_of bubble_data (fst item)) \<longrightarrow> merge_step bubble_data item = Inr None)
    \<and> (\<forall>k v others. bubbles_of bubble_data (fst item) = JObj ((k, v) # others) \<longrightarrow>
          merge_step bubble_data item
            = Inr (Some (name, dict_set (dict_del (snd item) ''name'') ''bubbles'' v))))
   \<and> (merge_areas set_order areas bubble_data = Inr out \<and> set_iteration set_order \<longrightarrow>
        mset (concat (map snd out))
          = mset (map (with_bubbles bubble_data) (filter (populated bubble_data) areas)))"
proof (intro conjI impI allI)
  assume "map_of (snd item) ''name'' = Some name" and "map_of bubble_data (fst item) = None"
  then show "merge_step bubble_data item = Inr None"
    by (simp add: merge_step_skip bubbles_of_def)
next
  assume "map_of (snd item) ''name'' = Some name"
    and "\<not> py_truthy (bubbles_of bubble_data (fst item))"
  then show "merge_step bubble_data item = Inr None"
    by (rule merge_step_skip)
next
  fix k v others
  assume "map_of (snd item) ''name'' = Some name"
    and "bubbles_of bubble_data (fst item) = JObj ((k, v) # others)"
  then show "merge_step bubble_data item
      = Inr (Some (name, dict_set (dict_del (snd item) ''name'') ''bubbles'' v))"
    by (rule merge_step_keep)
next
  assume "merge_areas set_order areas bubble_data = Inr out \<and> set_iteration set_order"
  then show "mset (concat (map snd out))
      = mset (map (with_bubbles bubble_data) (filter (populated bubble_data) areas))"
    using kept_areas_mset by blast
qed

theorem merge_keeps_populated_witness:
  "merge_step example_bubble_data (example_areas ! 1) = Inr None
   \<and> merge_step example_bubble_data (example_areas ! 2) = Inr None
   \<and> merge_step example_bubble_data (example_areas ! 0)
       = Inr (Some (JStr ''rec.1'',
           [(''start'', JInt 1), (''end'', JInt 10),
            (''products'', JArr [JStr ''nrps'', JStr ''t1pks'']),
            (''bubbles'', JObj [(''modules'', JInt 2)])]))
   \<and> mset (concat (map snd [(JStr ''rec.1'',
           [[(''start'', JInt 1), (''end'', JInt 10),
             (''products'', JArr [JStr ''nrps'', JStr ''t1pks'']),
             (''bubbles'', JObj [(''modules'', JInt 2)])]])]))
       = mset (map (with_bubbles example_bubble_data) (filter (populated example_bubble_data) example_areas))"
  using merge_keeps_populated [of "example_areas ! 1" "JStr ''rec.1''" example_bubble_data
      "\<lambda>xs. xs" example_areas
      "[(JStr ''rec.1'', [[(''start'', JInt 1), (''end'', JInt 10),
             (''products'', JArr [JStr ''nrps'', JStr ''t1pks'']),
             (''bubbles'', JObj [(''modules'', JInt 2)])]])]"]
    merge_keeps_populated [of "example_areas ! 2" "JStr ''rec.2''" example_bubble_data
      "\<lambda>xs. xs" "[]" "[]"]
    merge_keeps_populated [of "example_areas ! 0" "JStr ''rec.1''" example_bubble_data
      "\<lambda>xs. xs" "[]" "[]"]
    example_merge set_iteration_id
  by (simp add: example_areas_def example_bubble_data_def bubbles_of_def)

text \<open>
  An area whose first variant has an empty value: the claim drops it, the code keeps it
  with empty \<^verbatim>\<open>bubbles\<close>.
\<close>

theorem empty_first_variant_kept:
  "\<not> py_truthy (first_variant (JObj [(''CC1'', JObj [])]))
   \<and> merge_areas (\<lambda>xs. xs)
        [(''r1c1'', [(''name'', JStr ''rec1''), (''start'', JInt 1), (''end'', JInt 9),
                     (''products'', JArr [])])]
        [(''r1c1'', JObj [(''CC1'', JObj [])])]
      = Inr [(JStr ''rec1'', [[(''start'', JInt 1), (''end'', JInt 9), (''products'', JArr []),
                               (''bubbles'', JObj [])]])]"
  by (simp add: merge_areas_def dict_getitem_def merge_step_def dict_pop_def bubbles_of_def py_eq_def)

section \<open>The first variant\<close>

lemma merge_loop_cong:
  "(\<And>item. merge_step bubble_data' item = merge_step bubble_data item) \<Longrightarrow>
     merge_loop bubble_data' areas records = merge_loop bubble_data areas records"
proof (induction areas arbitrary: records)
  case Nil
  then show ?case by simp
next
  case (Cons item areas)
  from Cons.IH [OF Cons.prems]
  have "merge_loop bubble_data' areas = merge_loop bubble_data areas"
    by (rule ext)
  with Cons.prems show ?case by simp
qed

lemma records_append_keys:
  "records_append records name area = Inr records' \<Longrightarrow> map fst records' = map fst records"
proof (induction records arbitrary: records')
  case Nil
  then show ?case by simp
next
  case (Cons r records)
  obtain n as where r: "r = (n, as)" by (cases r)
  show ?case
  proof (cases "py_eq n name")
    case True
    with Cons.prems r show ?thesis by auto
  next
    case False
    with Cons.prems r obtain rest' where "records_append records name area = Inr rest'"
      and "records' = (n, as) # rest'"
      by (auto simp: bind_result_Inr_iff)
    with Cons.IH [of rest'] r show ?thesis by simp
  qed
qed

lemma records_append_ok:
  "py_key name \<in> (\<lambda>r. py_key (fst r)) ` set records \<Longrightarrow>
     \<exists>records'. records_append records name area = Inr records'"
proof (induction records)
  case Nil
  then show ?case by simp
next
  case (Cons r records)
  obtain n as where r: "r = (n, as)" by (cases r)
  show ?case
  proof (cases "py_eq n name")
    case True
    with r show ?thesis by simp
  next
    case False
    with Cons.prems r have "py_key name \<in> (\<lambda>r. py_key (fst r)) ` set records"
      by (auto simp: py_eq_def)
    from Cons.IH [OF this] False r show ?thesis by auto
  qed
qed

lemma merge_loop_ok:
  assumes "\<forall>item \<in> set areas. \<exists>n. map_of (snd item) ''name'' = Some n
      \<and> py_key n \<in> (\<lambda>r. py_key (fst r)) ` set records
      \<and> (populated bubble_data item \<longrightarrow> (\<exists>kvs. bubbles_of bubble_data (fst item) = JObj kvs))"
  shows "\<exists>out. merge_loop bubble_data areas records = Inr out"
  using assms
proof (induction areas arbitrary: records)
  case Nil
  then show ?case by simp
next
  case (Cons item areas)
  from Cons.prems obtain n where n: "map_of (snd item) ''name'' = Some n"
    and key: "py_key n \<in> (\<lambda>r. py_key (fst r)) ` set records"
    and obj: "populated bubble_data item \<longrightarrow> (\<exists>kvs. bubbles_of bubble_data (fst item) = JObj kvs)"
    by auto
  have rest: "\<forall>item \<in> set areas. \<exists>n. map_of (snd item) ''name'' = Some n
      \<and> py_key n \<in> (\<lambda>r. py_key (fst r)) ` set records'
      \<and> (populated bubble_data item \<longrightarrow> (\<exists>kvs. bubbles_of bubble_data (fst item) = JObj kvs))"
    if "map fst records' = map fst records" for records'
  proof -
    from that have "set (map fst records') = set (map fst records)" by simp
    then have "fst ` set records' = fst ` set records" by simp
    then have "py_key ` fst ` set records' = py_key ` fst ` set records" by simp
    then have "(\<lambda>r. py_key (fst r)) ` set records' = (\<lambda>r. py_key (fst r)) ` set records"
      by (simp only: image_image)
    with Cons.prems show ?thesis by simp
  qed
  show ?case
  proof (cases "populated bubble_data item")
    case False
    with n have "merge_step bubble_data item = Inr None"
      by (simp add: merge_step_def dict_pop_def populated_def)
    with Cons.IH [OF rest [of records]] show ?thesis by simp
  next
    case True
    with obj obtain kvs where kvs: "bubbles_of bubble_data (fst item) = JObj kvs" by blast
    with True obtain k v others where "kvs = (k, v) # others"
      by (cases kvs) (auto simp: populated_def)
    with n kvs have step: "merge_step bubble_data item
        = Inr (Some (n, dict_set (dict_del (snd item) ''name'') ''bubbles'' v))"
      by (simp add: merge_step_def dict_pop_def)
    from records_append_ok [OF key] obtain records'
      where app: "records_append records n (dict_set (dict_del (snd item) ''name'') ''bubbles'' v)
          = Inr records'"
      by blast
    from Cons.IH [OF rest [OF records_append_keys [OF app]]] step app show ?thesis by simp
  qed
qed

lemma record_names_loop_ok:
  "\<forall>item \<in> set areas. \<exists>n. map_of (snd item) ''name'' = Some n \<and> py_hashable n \<Longrightarrow>
     \<exists>names. record_names_loop areas acc = Inr names"
proof (induction areas arbitrary: acc)
  case Nil
  then show ?case by simp
next
  case (Cons item areas)
  obtain anchor area where item: "item = (anchor, area)" by (cases item)
  from Cons.prems item obtain n where "map_of area ''name'' = Some n" and "py_hashable n"
    by auto
  with Cons.IH [of "if py_key n \<in> set (map py_key acc) then acc else acc @ [n]"] Cons.prems item
  show ?case by (simp add: dict_getitem_def)
qed

lemma merge_areas_ok:
  assumes "\<forall>item \<in> set areas. \<exists>n. map_of (snd item) ''name'' = Some n \<and> py_hashable n
      \<and> (populated bubble_data item \<longrightarrow> (\<exists>kvs. bubbles_of bubble_data (fst item) = JObj kvs))"
    and "set_iteration set_order"
  shows "\<exists>out. merge_areas set_order areas bubble_data = Inr out"
proof -
  from assms(1) have "\<forall>item \<in> set areas. \<exists>n. map_of (snd item) ''name'' = Some n \<and> py_hashable n"
    by blast
  from record_names_loop_ok [OF this] obtain names
    where names: "record_names_loop areas [] = Inr names"
    by blast
  from record_names_loop_Inr [OF names]
  have keys: "py_key ` set names = (\<lambda>item. py_key (area_name (snd item))) ` set areas"
    by simp
  from assms(2) have "mset (set_order names) = mset names"
    by (simp add: set_iteration_def)
  then have same: "set (set_order names) = set names"
    by (rule mset_eq_setD)
  let ?records = "map (\<lambda>name. (name, [] :: (string \<times> json) list list)) (set_order names)"
  have img: "(\<lambda>r. py_key (fst r)) ` set ?records = py_key ` set names"
    by (simp add: image_image same)
  have "\<forall>item \<in> set areas. \<exists>n. map_of (snd item) ''name'' = Some n
      \<and> py_key n \<in> (\<lambda>r. py_key (fst r)) ` set ?records
      \<and> (populated bubble_data item \<longrightarrow> (\<exists>kvs. bubbles_of bubble_data (fst item) = JObj kvs))"
  proof
    fix item
    assume i: "item \<in> set areas"
    with assms(1) obtain n where n: "map_of (snd item) ''name'' = Some n"
      and o: "populated bubble_data item \<longrightarrow> (\<exists>kvs. bubbles_of bubble_data (fst item) = JObj kvs)"
      by blast
    from n have "area_name (snd item) = n" by (simp add: area_name_def)
    with i keys have "py_key n \<in> py_key ` set names" by blast
    with n o img show "\<exists>n. map_of (snd item) ''name'' = Some n
      \<and> py_key n \<in> (\<lambda>r. py_key (fst r)) ` set ?records
      \<and> (populated bubble_data item \<longrightarrow> (\<exists>kvs. bubbles_of bubble_data (fst item) = JObj kvs))"
      by blast
  qed
  from merge_loop_ok [OF this] obtain records
    where "merge_loop bubble_data areas ?records = Inr records"
    by blast
  with names show ?thesis
    by (simp add: merge_areas_def)
qed

lemma first_variant_in_output:
  assumes out: "merge_areas set_order areas bubble_data = Inr out" and ord: "set_iteration set_order"
    and item: "(a, area) \<in> set areas"
    and v: "bubbles_of bubble_data a = JObj ((k, v) # others)"
  shows "\<exists>r \<in> set out. py_eq (fst r) (area_name area)
           \<and> dict_set (dict_del area ''name'') ''bubbles'' v \<in> set (snd r)"
proof -
  from merge_areas_Inr [OF out ord] obtain names
    where names: "record_names_loop areas [] = Inr names"
      and same: "set (set_order names) = set names"
      and o: "out = filter (\<lambda>(n, as). as \<noteq> [])
                (map (\<lambda>n. (n, kept_for bubble_data areas n)) (set_order names))"
    by blast
  from record_names_loop_Inr [OF names]
  have "py_key ` set names = (\<lambda>item. py_key (area_name (snd item))) ` set areas"
    by simp
  with item have "py_key (area_name area) \<in> py_key ` set names" by force
  with same obtain n where n: "n \<in> set (set_order names)" and eq: "py_eq n (area_name area)"
    by (auto simp: py_eq_def)
  from v have pop: "populated bubble_data (a, area)"
    by (simp add: populated_def)
  have wb: "with_bubbles bubble_data (a, area) = dict_set (dict_del area ''name'') ''bubbles'' v"
    by (simp add: with_bubbles_def v)
  from item pop eq have "with_bubbles bubble_data (a, area) \<in> set (kept_for bubble_data areas n)"
    by (force simp: kept_for_def)
  with wb have mem: "dict_set (dict_del area ''name'') ''bubbles'' v \<in> set (kept_for bubble_data areas n)"
    by simp
  then have "kept_for bubble_data areas n \<noteq> []" by auto
  with n have "(n, kept_for bubble_data areas n) \<in> set out"
    by (auto simp: o)
  with eq mem show ?thesis by force
qed

text \<open>
  C5. When the dictionary of variants under an anchor starts with a variant of value \<open>v\<close>,
  the loop keeps the area of that anchor with \<^verbatim>\<open>bubbles\<close> set to \<open>v\<close>, and the merge that
  returns has that area, with \<^verbatim>\<open>bubbles\<close> equal to \<open>v\<close>, in the record of the area's
  name. Nothing else of the dictionary reaches the result: another name for the first
  variant, and other variants after it, or none, give the same merge. The merge returns
  whenever every area has a name that can be hashed and all bubbles that pass the test
  are dictionaries.
\<close>

theorem first_variant_retained:
  assumes "bubbles_of bubble_data a = JObj ((k, v) # others)"
    and "bubbles_of bubble_data' a = JObj ((k', v) # others')"
    and "\<forall>a'. a' \<noteq> a \<longrightarrow> bubbles_of bubble_data' a' = bubbles_of bubble_data a'"
  shows "merge_areas set_order areas bubble_data' = merge_areas set_order areas bubble_data
       \<and> (\<forall>area name. map_of area ''name'' = Some name \<longrightarrow>
            merge_step bubble_data (a, area)
              = Inr (Some (name, dict_set (dict_del area ''name'') ''bubbles'' v)))
       \<and> (\<forall>out area. merge_areas set_order areas bubble_data = Inr out \<and> set_iteration set_order
              \<and> (a, area) \<in> set areas \<longrightarrow>
            (\<exists>r \<in> set out. py_eq (fst r) (area_name area)
               \<and> dict_set (dict_del area ''name'') ''bubbles'' v \<in> set (snd r)
               \<and> map_of (dict_set (dict_del area ''name'') ''bubbles'' v) ''bubbles'' = Some v))
       \<and> ((\<forall>item \<in> set areas. \<exists>n. map_of (snd item) ''name'' = Some n \<and> py_hashable n
              \<and> (populated bubble_data item \<longrightarrow>
                    (\<exists>kvs. bubbles_of bubble_data (fst item) = JObj kvs)))
            \<and> set_iteration set_order \<longrightarrow>
            (\<exists>out. merge_areas set_order areas bubble_data = Inr out))"
proof -
  have "merge_step bubble_data' item = merge_step bubble_data item" for item
  proof (cases "fst item = a")
    case True
    with assms(1,2) show ?thesis
      by (simp add: merge_step_def)
  next
    case False
    with assms(3) show ?thesis
      by (simp add: merge_step_def)
  qed
  then have "merge_loop bubble_data' areas records = merge_loop bubble_data areas records" for records
    by (rule merge_loop_cong)
  then have 1: "merge_areas set_order areas bubble_data' = merge_areas set_order areas bubble_data"
    by (simp add: merge_areas_def)
  have 2: "merge_step bubble_data (a, area)
      = Inr (Some (name, dict_set (dict_del area ''name'') ''bubbles'' v))"
    if "map_of area ''name'' = Some name" for area name
    using that assms(1) by (simp add: merge_step_def dict_pop_def)
  have 3: "\<exists>r \<in> set out. py_eq (fst r) (area_name area)
               \<and> dict_set (dict_del area ''name'') ''bubbles'' v \<in> set (snd r)
               \<and> map_of (dict_set (dict_del area ''name'') ''bubbles'' v) ''bubbles'' = Some v"
    if "merge_areas set_order areas bubble_data = Inr out \<and> set_iteration set_order
        \<and> (a, area) \<in> set areas" for out area
  proof -
    from that first_variant_in_output [of set_order areas bubble_data out a area k v others] assms(1)
    obtain r where "r \<in> set out" and "py_eq (fst r) (area_name area)"
      and "dict_set (dict_del area ''name'') ''bubbles'' v \<in> set (snd r)"
      by blast
    moreover have "map_of (dict_set (dict_del area ''name'') ''bubbles'' v) ''bubbles'' = Some v"
      by (simp add: map_of_dict_set)
    ultimately show ?thesis by blast
  qed
  have 4: "\<exists>out. merge_areas set_order areas bubble_data = Inr out"
    if "(\<forall>item \<in> set areas. \<exists>n. map_of (snd item) ''name'' = Some n \<and> py_hashable n
              \<and> (populated bubble_data item \<longrightarrow>
                    (\<exists>kvs. bubbles_of bubble_data (fst item) = JObj kvs)))
        \<and> set_iteration set_order"
  proof -
    from that have "\<forall>item \<in> set areas. \<exists>n. map_of (snd item) ''name'' = Some n \<and> py_hashable n
              \<and> (populated bubble_data item \<longrightarrow>
                    (\<exists>kvs. bubbles_of bubble_data (fst item) = JObj kvs))"
      and "set_iteration set_order"
      by simp_all
    then show ?thesis by (rule merge_areas_ok)
  qed
  show ?thesis
  proof (intro conjI allI impI)
    show "merge_areas set_order areas bubble_data' = merge_areas set_order areas bubble_data"
      by (rule 1)
  next
    fix area :: "(string \<times> json) list" and name :: json
    assume "map_of area ''name'' = Some name"
    then show "merge_step bubble_data (a, area)
        = Inr (Some (name, dict_set (dict_del area ''name'') ''bubbles'' v))"
      by (rule 2)
  next
    fix out area
    assume "merge_areas set_order areas bubble_data = Inr out \<and> set_iteration set_order
        \<and> (a, area) \<in> set areas"
    then show "\<exists>r \<in> set out. py_eq (fst r) (area_name area)
               \<and> dict_set (dict_del area ''name'') ''bubbles'' v \<in> set (snd r)
               \<and> map_of (dict_set (dict_del area ''name'') ''bubbles'' v) ''bubbles'' = Some v"
      by (rule 3)
  next
    assume "(\<forall>item \<in> set areas. \<exists>n. map_of (snd item) ''name'' = Some n \<and> py_hashable n
              \<and> (populated bubble_data item \<longrightarrow>
                    (\<exists>kvs. bubbles_of bubble_data (fst item) = JObj kvs)))
        \<and> set_iteration set_order"
    then show "\<exists>out. merge_areas set_order areas bubble_data = Inr out"
      by (rule 4)
  qed
qed

theorem first_variant_retained_witness:
  "merge_areas (\<lambda>xs. xs) example_areas
      [(''r1c1'', JObj [(''candidate_7'', JObj [(''modules'', JInt 2)])]),
       (''r1c2'', JNull),
       (''r2c1'', JObj [])]
     = merge_areas (\<lambda>xs. xs) example_areas example_bubble_data
   \<and> merge_step example_bubble_data
        (''r1c1'', [(''name'', JStr ''rec.1''), (''start'', JInt 1), (''end'', JInt 10),
                    (''products'', JArr [JStr ''nrps'', JStr ''t1pks''])])
     = Inr (Some (JStr ''rec.1'',
         [(''start'', JInt 1), (''end'', JInt 10),
          (''products'', JArr [JStr ''nrps'', JStr ''t1pks'']),
          (''bubbles'', JObj [(''modules'', JInt 2)])]))
   \<and> (\<exists>r \<in> set [(JStr ''rec.1'', [[(''start'', JInt 1), (''end'', JInt 10),
                               (''products'', JArr [JStr ''nrps'', JStr ''t1pks'']),
                               (''bubbles'', JObj [(''modules'', JInt 2)])]])].
         py_eq (fst r) (JStr ''rec.1'')
         \<and> [(''start'', JInt 1), (''end'', JInt 10),
             (''products'', JArr [JStr ''nrps'', JStr ''t1pks'']),
             (''bubbles'', JObj [(''modules'', JInt 2)])] \<in> set (snd r))
   \<and> (\<exists>out. merge_areas (\<lambda>xs. xs) example_areas example_bubble_data = Inr out)"
proof -
  let ?renamed = "[(''r1c1'', JObj [(''candidate_7'', JObj [(''modules'', JInt 2)])]),
       (''r1c2'', JNull), (''r2c1'', JObj [])]"
  let ?area = "[(''name'', JStr ''rec.1''), (''start'', JInt 1), (''end'', JInt 10),
                    (''products'', JArr [JStr ''nrps'', JStr ''t1pks''])]"
  let ?out = "[(JStr ''rec.1'', [[(''start'', JInt 1), (''end'', JInt 10),
                               (''products'', JArr [JStr ''nrps'', JStr ''t1pks'']),
                               (''bubbles'', JObj [(''modules'', JInt 2)])]])]"
  have 1: "bubbles_of example_bubble_data ''r1c1''
      = JObj ((''CC1'', JObj [(''modules'', JInt 2)]) # [(''CC2'', JObj [(''modules'', JInt 1)])])"
    by (simp add: example_bubble_data_def bubbles_of_def)
  have 2: "bubbles_of ?renamed ''r1c1'' = JObj ((''candidate_7'', JObj [(''modules'', JInt 2)]) # [])"
    by (simp add: bubbles_of_def)
  have 3: "\<forall>a'. a' \<noteq> ''r1c1'' \<longrightarrow> bubbles_of ?renamed a' = bubbles_of example_bubble_data a'"
    by (simp add: example_bubble_data_def bubbles_of_def)
  note retained = first_variant_retained [OF 1 2 3, of "\<lambda>xs. xs" example_areas]
  from retained [THEN conjunct1]
  have a: "merge_areas (\<lambda>xs. xs) example_areas ?renamed
      = merge_areas (\<lambda>xs. xs) example_areas example_bubble_data" .
  from retained [THEN conjunct2, THEN conjunct1] have "\<forall>area name. map_of area ''name'' = Some name \<longrightarrow>
            merge_step example_bubble_data (''r1c1'', area)
              = Inr (Some (name, dict_set (dict_del area ''name'') ''bubbles'' (JObj [(''modules'', JInt 2)])))" .
  from this [rule_format, of ?area "JStr ''rec.1''"]
  have b: "merge_step example_bubble_data (''r1c1'', ?area)
     = Inr (Some (JStr ''rec.1'',
         [(''start'', JInt 1), (''end'', JInt 10),
          (''products'', JArr [JStr ''nrps'', JStr ''t1pks'']),
          (''bubbles'', JObj [(''modules'', JInt 2)])]))"
    by simp
  from retained [THEN conjunct2, THEN conjunct2, THEN conjunct1]
  have "\<forall>out area. merge_areas (\<lambda>xs. xs) example_areas example_bubble_data = Inr out
              \<and> set_iteration (\<lambda>xs. xs) \<and> (''r1c1'', area) \<in> set example_areas \<longrightarrow>
            (\<exists>r \<in> set out. py_eq (fst r) (area_name area)
               \<and> dict_set (dict_del area ''name'') ''bubbles'' (JObj [(''modules'', JInt 2)]) \<in> set (snd r)
               \<and> map_of (dict_set (dict_del area ''name'') ''bubbles'' (JObj [(''modules'', JInt 2)])) ''bubbles''
                   = Some (JObj [(''modules'', JInt 2)]))" .
  from this [rule_format, of ?out ?area] example_merge set_iteration_id
  have c: "\<exists>r \<in> set ?out. py_eq (fst r) (JStr ''rec.1'')
         \<and> [(''start'', JInt 1), (''end'', JInt 10),
             (''products'', JArr [JStr ''nrps'', JStr ''t1pks'']),
             (''bubbles'', JObj [(''modules'', JInt 2)])] \<in> set (snd r)"
    by (simp add: example_areas_def area_name_def)
  from example_merge have d: "\<exists>out. merge_areas (\<lambda>xs. xs) example_areas example_bubble_data = Inr out"
    by blast
  from a b c d show ?thesis by (intro conjI)
qed

section \<open>No index error\<close>

lemma py_getitem_no_IndexError: "py_getitem v key \<noteq> Inl IndexError"
  by (cases v) (auto split: option.splits)

lemma py_get_no_IndexError: "py_get v key dflt \<noteq> Inl IndexError"
  by (cases v) (auto split: option.splits)

lemma py_iter_no_IndexError: "py_iter v \<noteq> Inl IndexError"
  by (cases v) auto

lemma py_items_no_IndexError: "py_items v \<noteq> Inl IndexError"
  by (cases v) auto

lemma py_open_no_IndexError: "py_open f \<noteq> Inl IndexError"
  by (cases f) auto

lemma schema_in_range_no_IndexError: "schema_in_range v \<noteq> Inl IndexError"
  by (cases v) auto

lemma make_area_no_IndexError: "make_area r a \<noteq> Inl IndexError"
  by (auto simp: make_area_def bind_result_Inl_iff py_getitem_no_IndexError)

lemma areas_loop_no_IndexError: "areas_loop r rc c as acc \<noteq> Inl IndexError"
  by (induction as arbitrary: c acc) (auto simp: bind_result_Inl_iff make_area_no_IndexError)

lemma records_loop_no_IndexError: "records_loop r rs acc \<noteq> Inl IndexError"
  by (induction rs arbitrary: r acc)
     (auto simp: bind_result_Inl_iff py_getitem_no_IndexError py_iter_no_IndexError
        areas_loop_no_IndexError)

lemma get_areas_no_IndexError: "get_areas handle \<noteq> Inl IndexError"
  by (auto simp: get_areas_def bind_result_Inl_iff py_get_no_IndexError
      schema_in_range_no_IndexError py_getitem_no_IndexError py_iter_no_IndexError
      records_loop_no_IndexError split: option.splits if_splits)

lemma bubble_loop_no_IndexError: "bubble_loop items acc \<noteq> Inl IndexError"
  by (induction items acc rule: bubble_loop.induct)
     (auto simp: bind_result_Inl_iff py_get_no_IndexError)

lemma extract_bubble_data_no_IndexError: "extract_bubble_data loads lines \<noteq> Inl IndexError"
  by (auto simp: extract_bubble_data_def bind_result_Inl_iff py_items_no_IndexError
      bubble_loop_no_IndexError split: list.splits option.splits)

lemma record_names_loop_no_IndexError: "record_names_loop areas acc \<noteq> Inl IndexError"
  by (induction areas acc rule: record_names_loop.induct)
     (auto simp: bind_result_Inl_iff dict_getitem_def split: option.splits)

lemma records_append_no_IndexError: "records_append records name area \<noteq> Inl IndexError"
  by (induction records) (auto simp: bind_result_Inl_iff split: if_splits)

lemma guarded_first:
  "py_truthy bubbles \<Longrightarrow> py_values bubbles = Inr vs \<Longrightarrow> \<exists>v. py_first vs = Inr v"
  by (cases bubbles) (auto simp: neq_Nil_conv)

lemma py_values_no_IndexError: "py_values v \<noteq> Inl IndexError"
  by (cases v) auto

lemma merge_step_no_IndexError: "merge_step bubble_data item \<noteq> Inl IndexError"
proof
  assume a: "merge_step bubble_data item = Inl IndexError"
  have pop: "dict_pop (snd item) ''name'' \<noteq> Inl IndexError"
    by (auto simp: dict_pop_def split: option.splits)
  with a obtain name area where "dict_pop (snd item) ''name'' = Inr (name, area)"
    and t: "py_truthy (bubbles_of bubble_data (fst item))"
    and r: "bind_result (py_values (bubbles_of bubble_data (fst item))) (\<lambda>vs.
              bind_result (py_first vs) (\<lambda>v.
              Inr (Some (name, dict_set area ''bubbles'' v)))) = Inl IndexError"
    by (auto simp: merge_step_def bind_result_Inl_iff Let_def split: if_splits)
  from r obtain vs where vs: "py_values (bubbles_of bubble_data (fst item)) = Inr vs"
    and f: "py_first vs = Inl IndexError"
    by (auto simp: bind_result_Inl_iff py_values_no_IndexError)
  from guarded_first [OF t vs] f show False by auto
qed

lemma merge_loop_no_IndexError: "merge_loop bubble_data areas records \<noteq> Inl IndexError"
  by (induction areas arbitrary: records)
     (auto simp: bind_result_Inl_iff merge_step_no_IndexError records_append_no_IndexError
        split: option.splits)

lemma merge_areas_no_IndexError: "merge_areas set_order areas bubble_data \<noteq> Inl IndexError"
  by (auto simp: merge_areas_def bind_result_Inl_iff record_names_loop_no_IndexError
      merge_loop_no_IndexError)

text \<open>
  C9. The selection of the first variant never raises an index error: where the list of
  the values is indexed, the bubbles have passed the test \<^verbatim>\<open>if not bubbles\<close>, and the
  values of bubbles that pass it and have values are not empty. So neither the body of
  the loop nor the merge of a directory ever ends in \<^verbatim>\<open>IndexError\<close>.
\<close>

theorem first_variant_no_IndexError:
  "merge_step bubble_data item \<noteq> Inl IndexError
   \<and> gather_from_files loads set_order dir \<noteq> Inl IndexError
   \<and> (py_truthy bubbles \<and> py_values bubbles = Inr vs \<longrightarrow> (\<exists>v. py_first vs = Inr v))"
proof (intro conjI impI)
  show "merge_step bubble_data item \<noteq> Inl IndexError"
    by (rule merge_step_no_IndexError)
next
  show "gather_from_files loads set_order dir \<noteq> Inl IndexError"
    by (auto simp: gather_from_files_def bind_result_Inl_iff py_open_no_IndexError
        get_areas_no_IndexError extract_bubble_data_no_IndexError merge_areas_no_IndexError
        split: list.splits)
next
  assume "py_truthy bubbles \<and> py_values bubbles = Inr vs"
  then show "\<exists>v. py_first vs = Inr v"
    using guarded_first by blast
qed

theorem first_variant_no_IndexError_witness:
  "merge_step example_bubble_data (example_areas ! 0) \<noteq> Inl IndexError
   \<and> gather_from_files example_loads (\<lambda>xs. xs) example_dir \<noteq> Inl IndexError
   \<and> (\<exists>v. py_first [JObj [(''modules'', JInt 2)], JObj [(''modules'', JInt 1)]] = Inr v)"
  using first_variant_no_IndexError [of example_bubble_data "example_areas ! 0" example_loads
      "\<lambda>xs. xs" example_dir
      "JObj [(''CC1'', JObj [(''modules'', JInt 2)]), (''CC2'', JObj [(''modules'', JInt 1)])]"
      "[JObj [(''modules'', JInt 2)], JObj [(''modules'', JInt 1)]]"]
  by simp

section \<open>Anchors\<close>

lemma digit_char_decimal: "d < 10 \<Longrightarrow> digit_char d \<in> set ''0123456789''"
proof -
  assume "d < 10"
  then have "d = 0 \<or> d = 1 \<or> d = 2 \<or> d = 3 \<or> d = 4 \<or> d = 5 \<or> d = 6 \<or> d = 7 \<or> d = 8 \<or> d = 9"
    by arith
  then show ?thesis
    by (auto simp: digit_char_def)
qed

lemma digit_char_inj: "d < 16 \<Longrightarrow> e < 16 \<Longrightarrow> digit_char d = digit_char e \<Longrightarrow> d = e"
proof -
  have "distinct ''0123456789abcdef''" by simp
  moreover have "length ''0123456789abcdef'' = 16" by simp
  ultimately show "d < 16 \<Longrightarrow> e < 16 \<Longrightarrow> digit_char d = digit_char e \<Longrightarrow> d = e"
    unfolding digit_char_def by (metis nth_eq_iff_index_eq)
qed

lemma str_nat_decimal: "set (str_nat n) \<subseteq> set ''0123456789''"
proof (induction n rule: str_nat.induct)
  case (1 n)
  show ?case
  proof (cases "n < 10")
    case True
    with digit_char_decimal [of n] show ?thesis
      by (simp add: str_nat_digit)
  next
    case False
    moreover have "digit_char (n mod 10) \<in> set ''0123456789''"
      by (rule digit_char_decimal) simp
    ultimately show ?thesis
      using 1 by (subst str_nat.simps) auto
  qed
qed

lemma str_nat_not_Nil: "str_nat n \<noteq> []"
  by (subst str_nat.simps) simp

lemma str_nat_inj: "str_nat n = str_nat m \<Longrightarrow> n = m"
proof (induction n arbitrary: m rule: str_nat.induct)
  case (1 n)
  show ?case
  proof (cases "n < 10")
    case True
    show ?thesis
    proof (cases "m < 10")
      case m: True
      with True "1.prems" have "digit_char n = digit_char m"
        by (simp add: str_nat_digit)
      with True m show ?thesis
        by (intro digit_char_inj) auto
    next
      case False
      then have "str_nat m = str_nat (m div 10) @ [digit_char (m mod 10)]"
        by (subst str_nat.simps) simp
      with True "1.prems" str_nat_not_Nil [of "m div 10"] show ?thesis
        by (simp add: str_nat_digit)
    qed
  next
    case False
    then have n: "str_nat n = str_nat (n div 10) @ [digit_char (n mod 10)]"
      by (subst str_nat.simps) simp
    show ?thesis
    proof (cases "m < 10")
      case True
      with n "1.prems" str_nat_not_Nil [of "n div 10"] show ?thesis
        by (simp add: str_nat_digit)
    next
      case m: False
      then have "str_nat m = str_nat (m div 10) @ [digit_char (m mod 10)]"
        by (subst str_nat.simps) simp
      with n "1.prems" have a: "str_nat (n div 10) = str_nat (m div 10)"
        and b: "digit_char (n mod 10) = digit_char (m mod 10)"
        by simp_all
      from "1.IH" [OF False a] have "n div 10 = m div 10" .
      moreover from b have "n mod 10 = m mod 10"
        by (intro digit_char_inj) auto
      ultimately show ?thesis
        by (metis div_mult_mod_eq)
    qed
  qed
qed

lemma area_anchor_inj: "area_anchor i j = area_anchor i' j' \<longleftrightarrow> i = i' \<and> j = j'"
proof
  assume a: "area_anchor i j = area_anchor i' j'"
  have c: "CHR ''c'' \<notin> set (str_nat n)" for n
    using str_nat_decimal [of n] by auto
  from a have "str_nat (i + 1) @ CHR ''c'' # str_nat (j + 1) = str_nat (i' + 1) @ CHR ''c'' # str_nat (j' + 1)"
    by (simp add: area_anchor_def)
  with c have "str_nat (i + 1) = str_nat (i' + 1) \<and> str_nat (j + 1) = str_nat (j' + 1)"
    by (simp add: append_Cons_eq_iff)
  then show "i = i' \<and> j = j'"
    by (auto dest: str_nat_inj)
qed simp

lemma dict_set_fresh: "k \<notin> fst ` set kvs \<Longrightarrow> dict_set kvs k v = kvs @ [(k, v)]"
  by (induction kvs) auto

lemma areas_loop_Inr:
  "areas_loop i r c as acc = Inr acc' \<Longrightarrow> \<forall>j \<ge> c. area_anchor i j \<notin> fst ` set acc \<Longrightarrow>
     (\<forall>area \<in> set as. \<exists>d. make_area r area = Inr d)
     \<and> acc' = acc @ map (\<lambda>(j, area). (area_anchor i j, area_dict r area)) (enumerate c as)"
proof (induction as arbitrary: c acc)
  case Nil
  then show ?case by simp
next
  case (Cons area as)
  from Cons.prems(1) obtain d where d: "make_area r area = Inr d"
    and loop: "areas_loop i r (Suc c) as (dict_set acc (area_anchor i c) d) = Inr acc'"
    by (auto simp: bind_result_Inr_iff)
  from Cons.prems(2) have set: "dict_set acc (area_anchor i c) d = acc @ [(area_anchor i c, d)]"
    by (intro dict_set_fresh) simp
  have "\<forall>j \<ge> Suc c. area_anchor i j \<notin> fst ` set (acc @ [(area_anchor i c, d)])"
    using Cons.prems(2) by (auto simp: area_anchor_inj)
  from Cons.IH [OF loop [unfolded set] this] d show ?case
    by (simp add: area_dict_def)
qed

lemma records_loop_Inr:
  "records_loop i rs acc = Inr acc' \<Longrightarrow> \<forall>k \<ge> i. \<forall>j. area_anchor k j \<notin> fst ` set acc \<Longrightarrow>
     (\<forall>r \<in> set rs. \<forall>area \<in> set (record_areas r). \<exists>d. make_area r area = Inr d)
     \<and> acc' = acc @ document_entries i rs"
proof (induction rs arbitrary: i acc)
  case Nil
  then show ?case by (simp add: document_entries_def)
next
  case (Cons r rs)
  from Cons.prems(1) obtain v as acc1 where v: "py_getitem r ''areas'' = Inr v"
    and as: "py_iter v = Inr as" and inner: "areas_loop i r 0 as acc = Inr acc1"
    and loop: "records_loop (Suc i) rs acc1 = Inr acc'"
    by (auto simp: bind_result_Inr_iff)
  from v as have ra: "record_areas r = as"
    by (simp add: record_areas_def)
  from Cons.prems(2) have "\<forall>j \<ge> 0. area_anchor i j \<notin> fst ` set acc" by simp
  from areas_loop_Inr [OF inner this]
  have made: "\<forall>area \<in> set as. \<exists>d. make_area r area = Inr d"
    and acc1: "acc1 = acc @ record_entries i r"
    by (simp_all add: record_entries_def ra)
  have "area_anchor k j \<notin> fst ` set acc1" if "Suc i \<le> k" for k j
  proof -
    from that Cons.prems(2) have "area_anchor k j \<notin> fst ` set acc" by simp
    moreover from that have "area_anchor k j \<notin> fst ` set (record_entries i r)"
      by (auto simp: record_entries_def area_anchor_inj)
    ultimately show ?thesis by (simp add: acc1 image_Un)
  qed
  then have "\<forall>k \<ge> Suc i. \<forall>j. area_anchor k j \<notin> fst ` set acc1" by blast
  from Cons.IH [OF loop this] made ra acc1 show ?case
    by (simp add: document_entries_def)
qed

lemma get_areas_Inr:
  assumes "get_areas (Some full_results) = Inr areas"
  shows "areas = document_entries 0 (document_records full_results)
       \<and> (\<forall>r \<in> set (document_records full_results). \<forall>area \<in> set (record_areas r).
            \<exists>d. make_area r area = Inr d)"
proof -
  from assms obtain records rs where "py_getitem full_results ''records'' = Inr records"
    and "py_iter records = Inr rs" and loop: "records_loop 0 rs [] = Inr areas"
    by (auto simp: get_areas_def bind_result_Inr_iff split: if_splits)
  then have "document_records full_results = rs"
    by (simp add: document_records_def)
  with records_loop_Inr [OF loop] show ?thesis by simp
qed

lemma enumerate_map_snd: "enumerate i (map f xs) = map (\<lambda>(k, x). (k, f x)) (enumerate i xs)"
  by (induction xs arbitrary: i) auto

lemma map_fst_enumerate_fun:
  "map (\<lambda>x. f (fst x)) (enumerate n xs) = map f [n..<n + length xs]"
proof -
  have "map (\<lambda>x. f (fst x)) (enumerate n xs) = map f (map fst (enumerate n xs))"
    by (simp only: map_map comp_def)
  then show ?thesis
    by (simp only: map_fst_enumerate)
qed

lemma record_entries_keys: "map fst (record_entries i r) = map (area_anchor i) [0..<area_count r]"
  using map_fst_enumerate_fun [of "area_anchor i" 0 "record_areas r"]
  by (simp add: record_entries_def area_count_def comp_def case_prod_beta)

lemma document_entries_keys:
  "map fst (document_entries i rs)
     = concat (map (\<lambda>(i, n). map (area_anchor i) [0..<n]) (enumerate i (map area_count rs)))"
  by (induction rs arbitrary: i) (simp_all add: document_entries_def record_entries_keys)

lemma document_entries_distinct: "distinct (map fst (document_entries i rs))"
proof (induction rs arbitrary: i)
  case Nil
  then show ?case by (simp add: document_entries_def)
next
  case (Cons r rs)
  have 1: "distinct (map fst (record_entries i r))"
    by (simp add: record_entries_keys distinct_map inj_on_def area_anchor_inj)
  have 2: "set (map fst (record_entries i r)) \<inter> set (map fst (document_entries (Suc i) rs)) = {}"
    by (auto simp: record_entries_keys document_entries_keys area_anchor_inj in_set_enumerate_eq)
  have "document_entries i (r # rs) = record_entries i r @ document_entries (Suc i) rs"
    by (simp add: document_entries_def)
  with 1 2 Cons.IH [of "Suc i"] show ?case by simp
qed

lemma document_entries_lookup:
  "k < length rs \<Longrightarrow> j < area_count (rs ! k) \<Longrightarrow>
     (area_anchor (i + k) j, area_dict (rs ! k) (record_areas (rs ! k) ! j)) \<in> set (document_entries i rs)"
proof (induction rs arbitrary: i k)
  case Nil
  then show ?case by simp
next
  case (Cons r rs)
  have split: "document_entries i (r # rs) = record_entries i r @ document_entries (Suc i) rs"
    by (simp add: document_entries_def)
  show ?case
  proof (cases k)
    case 0
    with Cons.prems have "(j, record_areas r ! j) \<in> set (enumerate 0 (record_areas r))"
      by (simp add: in_set_enumerate_eq area_count_def)
    then have "(area_anchor i j, area_dict r (record_areas r ! j)) \<in> set (record_entries i r)"
      by (force simp: record_entries_def)
    with 0 split show ?thesis by simp
  next
    case (Suc k')
    with Cons.prems Cons.IH [of k' "Suc i"] split show ?thesis by simp
  qed
qed

text \<open>
  C6. When the area extractor returns, the anchors it assigned are, in order, the
  anchors of the positions: the area at index \<open>j\<close> of the record at index \<open>i\<close> is stored
  under \<^verbatim>\<open>r<i+1>c<j+1>\<close>, in decimal, no two positions share an anchor, and the anchor
  leads to the dictionary made from that record and that area. The anchors depend on the
  numbers of areas of the records only: any other document whose records have as many
  areas each, such as one that differs in \<^verbatim>\<open>id\<close> fields or in the order of \<^verbatim>\<open>products\<close>,
  gets the same anchors.
\<close>

theorem anchors_positional:
  assumes "get_areas (Some full_results) = Inr areas"
  shows "map fst areas = positional_anchors (map area_count (document_records full_results))
       \<and> distinct (map fst areas)
       \<and> (\<forall>i j. i < length (document_records full_results)
                \<and> j < area_count (document_records full_results ! i) \<longrightarrow>
            map_of areas (''r'' @ str_nat (i + 1) @ ''c'' @ str_nat (j + 1))
              = Some (area_dict (document_records full_results ! i)
                        (record_areas (document_records full_results ! i) ! j))
            \<and> make_area (document_records full_results ! i)
                        (record_areas (document_records full_results ! i) ! j)
              = Inr (area_dict (document_records full_results ! i)
                        (record_areas (document_records full_results ! i) ! j)))
       \<and> (\<forall>other areas'. get_areas (Some other) = Inr areas'
                \<and> map area_count (document_records other)
                    = map area_count (document_records full_results) \<longrightarrow>
            map fst areas' = map fst areas)"
proof -
  let ?rs = "document_records full_results"
  from get_areas_Inr [OF assms] have areas: "areas = document_entries 0 ?rs"
    and made: "\<forall>r \<in> set ?rs. \<forall>area \<in> set (record_areas r). \<exists>d. make_area r area = Inr d"
    by simp_all
  have keys: "map fst areas = positional_anchors (map area_count ?rs)"
    by (simp add: areas document_entries_keys positional_anchors_def)
  have dist: "distinct (map fst areas)"
    by (simp add: areas document_entries_distinct)
  have look: "map_of areas (''r'' @ str_nat (i + 1) @ ''c'' @ str_nat (j + 1))
        = Some (area_dict (?rs ! i) (record_areas (?rs ! i) ! j))
      \<and> make_area (?rs ! i) (record_areas (?rs ! i) ! j)
        = Inr (area_dict (?rs ! i) (record_areas (?rs ! i) ! j))"
    if "i < length ?rs \<and> j < area_count (?rs ! i)" for i j
  proof -
    from that document_entries_lookup [of i ?rs j 0]
    have "(area_anchor i j, area_dict (?rs ! i) (record_areas (?rs ! i) ! j)) \<in> set areas"
      by (simp add: areas)
    with dist have "map_of areas (area_anchor i j)
        = Some (area_dict (?rs ! i) (record_areas (?rs ! i) ! j))"
      by (rule map_of_is_SomeI)
    moreover from that made
    obtain d where "make_area (?rs ! i) (record_areas (?rs ! i) ! j) = Inr d"
      by (metis area_count_def nth_mem)
    ultimately show ?thesis
      by (simp add: area_anchor_def area_dict_def)
  qed
  have same: "map fst areas' = map fst areas"
    if "get_areas (Some other) = Inr areas'
        \<and> map area_count (document_records other) = map area_count ?rs" for other areas'
  proof -
    from that get_areas_Inr [of other areas']
    have "areas' = document_entries 0 (document_records other)" by simp
    with that show ?thesis
      by (simp add: keys document_entries_keys positional_anchors_def)
  qed
  from keys dist look same show ?thesis by blast
qed

theorem anchors_positional_witness:
  "map fst example_areas = positional_anchors [2, 1]
   \<and> map fst example_areas = [''r1c1'', ''r1c2'', ''r2c1'']
   \<and> distinct (map fst example_areas)
   \<and> map_of example_areas (''r'' @ str_nat (0 + 1) @ ''c'' @ str_nat (1 + 1))
       = Some [(''name'', JStr ''rec.1''), (''start'', JInt 20), (''end'', JInt 30),
               (''products'', JArr [JStr ''nrps''])]
   \<and> (\<exists>areas'. get_areas (Some example_results_changed) = Inr areas'
         \<and> map fst areas' = map fst example_areas)"
proof -
  have rs: "document_records example_results
      = [JObj [(''id'', JStr ''rec.1''),
               (''areas'', JArr [
                  JObj [(''start'', JInt 1), (''end'', JInt 10),
                        (''products'', JArr [JStr ''nrps'', JStr ''t1pks''])],
                  JObj [(''start'', JInt 20), (''end'', JInt 30),
                        (''products'', JArr [JStr ''nrps''])]])],
         JObj [(''id'', JStr ''rec.2''),
               (''areas'', JArr [
                  JObj [(''start'', JInt 5), (''end'', JInt 7), (''products'', JArr [])]])]]"
    by (simp add: document_records_def example_results_def)
  have counts: "map area_count (document_records example_results) = [2, 1]"
    by (simp add: rs area_count_def record_areas_def)
  obtain areas' where other: "get_areas (Some example_results_changed) = Inr areas'"
    by (simp add: get_areas_def example_results_changed_def make_area_def)
  have counts': "map area_count (document_records example_results_changed) = [2, 1]"
    by (simp add: document_records_def example_results_changed_def area_count_def record_areas_def)
  note pos = anchors_positional [OF example_get_areas]
  from pos have "map fst example_areas
      = positional_anchors (map area_count (document_records example_results))"
    by blast
  then have 1: "map fst example_areas = positional_anchors [2, 1]"
    by (simp only: counts)
  from pos have 2: "distinct (map fst example_areas)" by blast
  from pos have "\<forall>i j. i < length (document_records example_results)
                \<and> j < area_count (document_records example_results ! i) \<longrightarrow>
            map_of example_areas (''r'' @ str_nat (i + 1) @ ''c'' @ str_nat (j + 1))
              = Some (area_dict (document_records example_results ! i)
                        (record_areas (document_records example_results ! i) ! j))"
    by blast
  from this [rule_format, of 0 1]
  have 3: "map_of example_areas (''r'' @ str_nat (0 + 1) @ ''c'' @ str_nat (1 + 1))
       = Some [(''name'', JStr ''rec.1''), (''start'', JInt 20), (''end'', JInt 30),
               (''products'', JArr [JStr ''nrps''])]"
    by (simp add: rs area_count_def record_areas_def area_dict_def make_area_def)
  from pos have "\<forall>other areas'. get_areas (Some other) = Inr areas'
                \<and> map area_count (document_records other)
                    = map area_count (document_records example_results) \<longrightarrow>
            map fst areas' = map fst example_areas"
    by blast
  with other counts counts' have 4: "map fst areas' = map fst example_areas"
    by simp
  have 5: "map fst example_areas = [''r1c1'', ''r1c2'', ''r2c1'']"
    by (simp add: example_areas_def)
  from 1 2 3 4 5 other show ?thesis by blast
qed

section \<open>How many areas a record keeps\<close>

lemma py_eq_trans: "py_eq a b \<Longrightarrow> py_eq b c \<Longrightarrow> py_eq a c"
  by (simp add: py_eq_def)

lemma make_area_name:
  "make_area r area = Inr d \<Longrightarrow> py_getitem r ''id'' = Inr (area_name d)"
  by (auto simp: make_area_def bind_result_Inr_iff area_name_def)

lemma area_dict_name:
  "\<exists>d. make_area r area = Inr d \<Longrightarrow> py_getitem r ''id'' = Inr nm \<Longrightarrow>
     area_name (area_dict r area) = nm"
proof -
  assume "\<exists>d. make_area r area = Inr d" and nm: "py_getitem r ''id'' = Inr nm"
  then obtain d where d: "make_area r area = Inr d" by blast
  from make_area_name [OF d] nm have "area_name d = nm" by simp
  with d show ?thesis by (simp add: area_dict_def)
qed

lemma record_entries_member:
  "item \<in> set (record_entries i r) \<Longrightarrow>
     \<exists>a < length (record_areas r). item = (area_anchor i a, area_dict r (record_areas r ! a))"
  by (auto simp: record_entries_def in_set_enumerate_eq)

lemma document_entries_member:
  "item \<in> set (document_entries j rs) \<Longrightarrow>
     \<exists>k < length rs. item \<in> set (record_entries (j + k) (rs ! k))"
proof (induction rs arbitrary: j)
  case Nil
  then show ?case by (simp add: document_entries_def)
next
  case (Cons r rs)
  have "document_entries j (r # rs) = record_entries j r @ document_entries (Suc j) rs"
    by (simp add: document_entries_def)
  with Cons.prems consider "item \<in> set (record_entries j r)"
    | "item \<in> set (document_entries (Suc j) rs)"
    by auto
  then show ?case
  proof cases
    case 1
    then show ?thesis by (intro exI [of _ 0]) simp
  next
    case 2
    from Cons.IH [OF 2] obtain k where "k < length rs"
      and "item \<in> set (record_entries (Suc j + k) (rs ! k))"
      by blast
    then show ?thesis by (intro exI [of _ "Suc k"]) simp
  qed
qed

lemma filter_record_entries_other:
  assumes "\<forall>area \<in> set (record_areas r). \<exists>d. make_area r area = Inr d"
    and "\<forall>nm. py_getitem r ''id'' = Inr nm \<longrightarrow> \<not> py_eq n nm"
  shows "filter (\<lambda>item. py_eq n (area_name (snd item))) (record_entries j r) = []"
proof -
  have "\<not> py_eq n (area_name (area_dict r area))" if "area \<in> set (record_areas r)" for area
  proof -
    from that assms(1) obtain d where d: "make_area r area = Inr d" by blast
    from make_area_name [OF d] assms(2) have "\<not> py_eq n (area_name d)" by blast
    with d show ?thesis by (simp add: area_dict_def)
  qed
  then show ?thesis
    by (auto simp: record_entries_def filter_empty_conv in_set_enumerate_eq)
qed

lemma filter_record_entries_same:
  assumes "\<forall>area \<in> set (record_areas r). \<exists>d. make_area r area = Inr d"
    and "py_getitem r ''id'' = Inr nm" and "py_eq n nm"
  shows "filter (\<lambda>item. py_eq n (area_name (snd item))) (record_entries j r) = record_entries j r"
proof -
  have "py_eq n (area_name (area_dict r area))" if "area \<in> set (record_areas r)" for area
    using that assms area_dict_name [of r area nm] by auto
  then show ?thesis
    by (auto simp: record_entries_def filter_id_conv in_set_enumerate_eq)
qed

lemma filter_document_entries_other:
  assumes "\<forall>r \<in> set rs. \<forall>area \<in> set (record_areas r). \<exists>d. make_area r area = Inr d"
    and "\<forall>r \<in> set rs. \<forall>nm. py_getitem r ''id'' = Inr nm \<longrightarrow> \<not> py_eq n nm"
  shows "filter (\<lambda>item. py_eq n (area_name (snd item))) (document_entries j rs) = []"
  using assms
proof (induction rs arbitrary: j)
  case Nil
  then show ?case by (simp add: document_entries_def)
next
  case (Cons r rs)
  have "document_entries j (r # rs) = record_entries j r @ document_entries (Suc j) rs"
    by (simp add: document_entries_def)
  moreover from Cons.prems
  have "filter (\<lambda>item. py_eq n (area_name (snd item))) (record_entries j r) = []"
    by (intro filter_record_entries_other) auto
  moreover from Cons.prems
  have "filter (\<lambda>item. py_eq n (area_name (snd item))) (document_entries (Suc j) rs) = []"
    by (intro Cons.IH) auto
  ultimately show ?case by simp
qed

lemma document_entries_append:
  "document_entries j (xs @ ys) = document_entries j xs @ document_entries (j + length xs) ys"
  by (simp add: document_entries_def enumerate_append_eq)

lemma filter_document_entries:
  assumes made: "\<forall>r \<in> set rs. \<forall>area \<in> set (record_areas r). \<exists>d. make_area r area = Inr d"
    and i: "i < length rs" and nm: "py_getitem (rs ! i) ''id'' = Inr name" and n: "py_eq n name"
    and others: "\<forall>k n'. k < length rs \<and> k \<noteq> i \<and> py_getitem (rs ! k) ''id'' = Inr n' \<longrightarrow> \<not> py_eq n' name"
  shows "filter (\<lambda>item. py_eq n (area_name (snd item))) (document_entries 0 rs)
       = record_entries i (rs ! i)"
proof -
  let ?P = "\<lambda>item. py_eq n (area_name (snd item))"
  have split: "rs = take i rs @ rs ! i # drop (Suc i) rs"
    using i by (simp add: id_take_nth_drop)
  have differ: "\<forall>nm. py_getitem r ''id'' = Inr nm \<longrightarrow> \<not> py_eq n nm"
    if "r \<in> set (take i rs) \<or> r \<in> set (drop (Suc i) rs)" for r
  proof -
    have "\<exists>k. k < length rs \<and> k \<noteq> i \<and> r = rs ! k"
    proof (rule disjE [OF that])
      assume "r \<in> set (take i rs)"
      then obtain k where "k < length (take i rs)" and "take i rs ! k = r"
        by (auto simp: in_set_conv_nth)
      with i show ?thesis by (intro exI [of _ k]) auto
    next
      assume "r \<in> set (drop (Suc i) rs)"
      then obtain k where "k < length (drop (Suc i) rs)" and "drop (Suc i) rs ! k = r"
        by (auto simp: in_set_conv_nth)
      with i show ?thesis by (intro exI [of _ "Suc i + k"]) auto
    qed
    then obtain k where "k < length rs" "k \<noteq> i" "r = rs ! k" by blast
    with others n show ?thesis
      by (metis py_eq_sym py_eq_trans)
  qed
  have before: "filter ?P (document_entries 0 (take i rs)) = []"
    by (rule filter_document_entries_other) (use made differ in \<open>auto dest: in_set_takeD\<close>)
  have after: "filter ?P (document_entries (Suc i) (drop (Suc i) rs)) = []"
    by (rule filter_document_entries_other) (use made differ in \<open>auto dest: in_set_dropD\<close>)
  have here: "filter ?P (record_entries i (rs ! i)) = record_entries i (rs ! i)"
    by (rule filter_record_entries_same [OF _ nm n]) (use made i in auto)
  have "document_entries 0 rs
      = document_entries 0 (take i rs) @ record_entries i (rs ! i)
        @ document_entries (Suc i) (drop (Suc i) rs)"
  proof -
    have "document_entries 0 (take i rs @ rs ! i # drop (Suc i) rs)
      = document_entries 0 (take i rs) @ document_entries i (rs ! i # drop (Suc i) rs)"
      using i by (simp add: document_entries_append)
    also have "document_entries i (rs ! i # drop (Suc i) rs)
      = record_entries i (rs ! i) @ document_entries (Suc i) (drop (Suc i) rs)"
      by (simp add: document_entries_def)
    finally show ?thesis using split by simp
  qed
  with before after here show ?thesis by simp
qed

lemma populated_entries_count:
  "length (filter (populated bubble_data) (record_entries i r)) = populated_count bubble_data i r"
proof -
  have "filter (populated bubble_data) (record_entries i r)
      = filter (\<lambda>item. py_truthy (bubbles_of bubble_data (fst item))) (record_entries i r)"
    by (rule filter_cong) (simp_all add: populated_def)
  then have "length (filter (populated bubble_data) (record_entries i r))
      = length (filter (\<lambda>a. py_truthy (bubbles_of bubble_data a)) (map fst (record_entries i r)))"
    by (simp add: filter_map comp_def)
  then show ?thesis
    by (simp add: record_entries_keys filter_map comp_def populated_count_def)
qed

lemma filter_distinct_key:
  "distinct (map g xs) \<Longrightarrow> x \<in> set xs \<Longrightarrow> filter (\<lambda>y. g y = g x) xs = [x]"
proof (induction xs)
  case Nil
  then show ?case by simp
next
  case (Cons a xs)
  show ?case
  proof (cases "a = x")
    case True
    from Cons.prems(1) have "g a \<notin> g ` set xs" by simp
    then have "\<forall>y \<in> set xs. g y \<noteq> g a" by (metis image_eqI)
    then have "filter (\<lambda>y. g y = g a) xs = []"
      by (simp add: filter_empty_conv)
    with True show ?thesis by simp
  next
    case False
    with Cons.prems have "x \<in> set xs" by simp
    with Cons.prems(1) have "g a \<noteq> g x" by auto
    with Cons \<open>x \<in> set xs\<close> show ?thesis by simp
  qed
qed

text \<open>
  C1, as the code has it. The merge groups the areas by record name, so the count holds
  for a record whose identifier no other record shares. When the two extractors and the
  merge return, such a record, with \<open>M\<close> of its areas having bubbles that pass the test,
  gives exactly one aggregated record of its name, with exactly \<open>M\<close> areas, when
  \<open>M > 0\<close>, and none when \<open>M = 0\<close>.
\<close>

theorem record_keeps_populated_areas:
  assumes "get_areas (Some full_results) = Inr areas"
    and "merge_areas set_order areas bubble_data = Inr out"
    and "set_iteration set_order"
    and "i < length (document_records full_results)"
    and "py_getitem (document_records full_results ! i) ''id'' = Inr name"
    and "\<forall>k n'. k < length (document_records full_results) \<and> k \<noteq> i
            \<and> py_getitem (document_records full_results ! k) ''id'' = Inr n' \<longrightarrow> \<not> py_eq n' name"
  shows "(populated_count bubble_data i (document_records full_results ! i) = 0 \<longrightarrow>
            filter (\<lambda>r. py_eq (fst r) name) out = [])
       \<and> (0 < populated_count bubble_data i (document_records full_results ! i) \<longrightarrow>
            (\<exists>as. filter (\<lambda>r. py_eq (fst r) name) out = [(name, as)]
               \<and> length as = populated_count bubble_data i (document_records full_results ! i)))"
proof -
  let ?rs = "document_records full_results"
  let ?M = "populated_count bubble_data i (?rs ! i)"
  from get_areas_Inr [OF assms(1)] have areas: "areas = document_entries 0 ?rs"
    and made: "\<forall>r \<in> set ?rs. \<forall>area \<in> set (record_areas r). \<exists>d. make_area r area = Inr d"
    by simp_all
  from merge_areas_Inr [OF assms(2,3)] obtain names
    where names: "record_names_loop areas [] = Inr names"
      and dist: "distinct (map py_key (set_order names))"
      and same: "set (set_order names) = set names"
      and out: "out = filter (\<lambda>(n, as). as \<noteq> [])
                  (map (\<lambda>n. (n, kept_for bubble_data areas n)) (set_order names))"
    by blast
  have kept: "kept_for bubble_data areas n
      = map (with_bubbles bubble_data) (filter (populated bubble_data) (record_entries i (?rs ! i)))"
    if "py_eq n name" for n
  proof -
    have "filter (\<lambda>item. populated bubble_data item \<and> py_eq n (area_name (snd item))) areas
        = filter (populated bubble_data) (filter (\<lambda>item. py_eq n (area_name (snd item))) areas)"
      by (simp add: conj_commute)
    with filter_document_entries [OF made assms(4,5) that assms(6)] show ?thesis
      by (simp add: kept_for_def areas)
  qed
  then have len: "length (kept_for bubble_data areas n) = ?M" if "py_eq n name" for n
    using that by (simp add: populated_entries_count)
  have swap: "filter (\<lambda>r. py_eq (fst r) name) out
      = filter (\<lambda>(n, as). as \<noteq> [])
          (filter (\<lambda>r. py_eq (fst r) name)
             (map (\<lambda>n. (n, kept_for bubble_data areas n)) (set_order names)))"
    by (simp add: out conj_commute)
  show ?thesis
  proof (intro conjI impI)
    assume "?M = 0"
    with len have "\<forall>r \<in> set (map (\<lambda>n. (n, kept_for bubble_data areas n)) (set_order names)).
        py_eq (fst r) name \<longrightarrow> snd r = []"
      by auto
    then show "filter (\<lambda>r. py_eq (fst r) name) out = []"
      by (auto simp: out filter_empty_conv)
  next
    assume pos: "0 < ?M"
    then have "filter (populated bubble_data) (record_entries i (?rs ! i)) \<noteq> []"
      by (auto simp flip: populated_entries_count)
    then obtain item where item: "item \<in> set (record_entries i (?rs ! i))"
      by (fastforce simp: filter_empty_conv)
    from record_entries_member [OF item] obtain a where a: "a < length (record_areas (?rs ! i))"
      and "snd item = area_dict (?rs ! i) (record_areas (?rs ! i) ! a)"
      by auto
    moreover from a have "record_areas (?rs ! i) ! a \<in> set (record_areas (?rs ! i))"
      by simp
    ultimately have nm: "area_name (snd item) = name"
      using made assms(4,5) by (simp add: area_dict_name)
    have in_areas: "item \<in> set areas"
    proof -
      have "rs = take i rs @ rs ! i # drop (Suc i) rs" if "i < length rs" for rs :: "json list"
        using that by (simp add: id_take_nth_drop)
      from this [OF assms(4)]
      have "document_entries 0 ?rs
          = document_entries 0 (take i ?rs) @ document_entries i (?rs ! i # drop (Suc i) ?rs)"
        using assms(4) by (metis add_0 document_entries_append length_take min.absorb2 less_imp_le)
      moreover have "document_entries i (?rs ! i # drop (Suc i) ?rs)
          = record_entries i (?rs ! i) @ document_entries (Suc i) (drop (Suc i) ?rs)"
        by (simp add: document_entries_def)
      ultimately show ?thesis using item by (simp add: areas)
    qed
    from record_names_loop_Inr [OF names]
    have keys: "py_key ` set names = (\<lambda>item. py_key (area_name (snd item))) ` set areas"
      and sub: "set names \<subseteq> (\<lambda>item. area_name (snd item)) ` set areas"
      by simp_all
    from keys in_areas nm obtain n where n: "n \<in> set names" and k: "py_key n = py_key name"
      by (metis (mono_tags, lifting) image_iff)
    from n sub obtain item' where i': "item' \<in> set areas" and n': "n = area_name (snd item')"
      by auto
    have "n = name"
    proof -
      from i' document_entries_member [of item' 0 ?rs] obtain k where k1: "k < length ?rs"
        and "item' \<in> set (record_entries k (?rs ! k))"
        by (auto simp: areas)
      from record_entries_member [OF this(2)] obtain a where "a < length (record_areas (?rs ! k))"
        and s0: "snd item' = area_dict (?rs ! k) (record_areas (?rs ! k) ! a)"
        by auto
      define area' where "area' = record_areas (?rs ! k) ! a"
      with \<open>a < length (record_areas (?rs ! k))\<close> s0
      have a': "area' \<in> set (record_areas (?rs ! k))"
        and s': "snd item' = area_dict (?rs ! k) area'"
        by simp_all
      from made k1 a' obtain d where d: "make_area (?rs ! k) area' = Inr d"
        by (metis nth_mem)
      from make_area_name [OF d] d s' n' have idk: "py_getitem (?rs ! k) ''id'' = Inr n"
        by (simp add: area_dict_def)
      from k have "py_eq n name" by (simp add: py_eq_def)
      with assms(6) k1 idk have "k = i" by blast
      with idk assms(5) show ?thesis by simp
    qed
    with n same have mem: "name \<in> set (set_order names)" by simp
    have "filter (\<lambda>r. py_eq (fst r) name)
             (map (\<lambda>n. (n, kept_for bubble_data areas n)) (set_order names))
        = map (\<lambda>n. (n, kept_for bubble_data areas n))
            (filter (\<lambda>n. py_key n = py_key name) (set_order names))"
      by (simp add: filter_map comp_def py_eq_def)
    also from filter_distinct_key [OF dist mem]
    have "filter (\<lambda>n. py_key n = py_key name) (set_order names) = [name]" .
    finally have "filter (\<lambda>r. py_eq (fst r) name) out
        = filter (\<lambda>(n, as). as \<noteq> []) [(name, kept_for bubble_data areas name)]"
      by (simp add: swap)
    moreover have "length (kept_for bubble_data areas name) = ?M"
      by (rule len) (simp add: py_eq_def)
    ultimately show "\<exists>as. filter (\<lambda>r. py_eq (fst r) name) out = [(name, as)] \<and> length as = ?M"
      using pos by auto
  qed
qed

lemma example_records:
  "document_records example_results
     = [JObj [(''id'', JStr ''rec.1''),
              (''areas'', JArr [
                 JObj [(''start'', JInt 1), (''end'', JInt 10),
                       (''products'', JArr [JStr ''nrps'', JStr ''t1pks''])],
                 JObj [(''start'', JInt 20), (''end'', JInt 30),
                       (''products'', JArr [JStr ''nrps''])]])],
        JObj [(''id'', JStr ''rec.2''),
              (''areas'', JArr [
                 JObj [(''start'', JInt 5), (''end'', JInt 7), (''products'', JArr [])]])]]"
  by (simp add: document_records_def example_results_def)

lemma upt_2: "[0..<2] = [0, Suc 0]"
  by (simp add: upt_rec numeral_2_eq_2)

theorem record_keeps_populated_areas_witness:
  "populated_count example_bubble_data 0 (document_records example_results ! 0) = 1
   \<and> (\<exists>as. filter (\<lambda>r. py_eq (fst r) (JStr ''rec.1''))
              [(JStr ''rec.1'', [[(''start'', JInt 1), (''end'', JInt 10),
                                  (''products'', JArr [JStr ''nrps'', JStr ''t1pks'']),
                                  (''bubbles'', JObj [(''modules'', JInt 2)])]])]
            = [(JStr ''rec.1'', as)] \<and> length as = 1)
   \<and> populated_count example_bubble_data 1 (document_records example_results ! 1) = 0
   \<and> filter (\<lambda>r. py_eq (fst r) (JStr ''rec.2''))
        [(JStr ''rec.1'', [[(''start'', JInt 1), (''end'', JInt 10),
                            (''products'', JArr [JStr ''nrps'', JStr ''t1pks'']),
                            (''bubbles'', JObj [(''modules'', JInt 2)])]])] = []"
proof -
  let ?rs = "document_records example_results"
  have len: "length ?rs = 2" by (simp add: example_records)
  have m0: "populated_count example_bubble_data 0 (?rs ! 0) = 1"
    by (simp add: example_records populated_count_def area_count_def record_areas_def upt_2
        area_anchor_def str_nat_1 str_nat_2 example_bubble_data_def bubbles_of_def)
  have m1: "populated_count example_bubble_data 1 (?rs ! 1) = 0"
    by (simp add: example_records populated_count_def area_count_def record_areas_def
        area_anchor_def str_nat_1 str_nat_2 example_bubble_data_def bubbles_of_def)
  have id0: "py_getitem (?rs ! 0) ''id'' = Inr (JStr ''rec.1'')"
    by (simp add: example_records)
  have id1: "py_getitem (?rs ! 1) ''id'' = Inr (JStr ''rec.2'')"
    by (simp add: example_records)
  have u0: "\<forall>k n'. k < length ?rs \<and> k \<noteq> 0 \<and> py_getitem (?rs ! k) ''id'' = Inr n'
      \<longrightarrow> \<not> py_eq n' (JStr ''rec.1'')"
  proof (intro allI impI)
    fix k n'
    assume a: "k < length ?rs \<and> k \<noteq> 0 \<and> py_getitem (?rs ! k) ''id'' = Inr n'"
    with len have "k = 1" by arith
    with a id1 have "n' = JStr ''rec.2''" by simp
    then show "\<not> py_eq n' (JStr ''rec.1'')" by (simp add: py_eq_def)
  qed
  have u1: "\<forall>k n'. k < length ?rs \<and> k \<noteq> 1 \<and> py_getitem (?rs ! k) ''id'' = Inr n'
      \<longrightarrow> \<not> py_eq n' (JStr ''rec.2'')"
  proof (intro allI impI)
    fix k n'
    assume a: "k < length ?rs \<and> k \<noteq> 1 \<and> py_getitem (?rs ! k) ''id'' = Inr n'"
    with len have "k = 0" by arith
    with a id0 have "n' = JStr ''rec.1''" by simp
    then show "\<not> py_eq n' (JStr ''rec.2'')" by (simp add: py_eq_def)
  qed
  from len have l0: "0 < length ?rs" and l1: "1 < length ?rs" by simp_all
  from record_keeps_populated_areas [OF example_get_areas example_merge set_iteration_id l0 id0 u0]
    record_keeps_populated_areas [OF example_get_areas example_merge set_iteration_id l1 id1 u1]
    m0 m1
  show ?thesis by simp
qed

text \<open>
  Two records of the same identifier, each with one area that has bubbles: the first
  record has one such area, and the aggregated record of its name has two areas.
\<close>

theorem twin_records_merged:
  "get_areas (Some example_twins) = Inr example_twins_areas
   \<and> area_count (document_records example_twins ! 0) = 1
   \<and> populated_count example_twins_bubbles 0 (document_records example_twins ! 0) = 1
   \<and> merge_areas (\<lambda>xs. xs) example_twins_areas example_twins_bubbles
       = Inr [(JStr ''rec.1'',
               [[(''start'', JInt 1), (''end'', JInt 10), (''products'', JArr []),
                 (''bubbles'', JInt 1)],
                [(''start'', JInt 5), (''end'', JInt 7), (''products'', JArr []),
                 (''bubbles'', JInt 2)]])]"
proof (intro conjI)
  show "get_areas (Some example_twins) = Inr example_twins_areas"
    by (simp add: get_areas_def example_twins_def example_twins_areas_def make_area_def
        area_anchor_def str_nat_1 str_nat_2)
  show "area_count (document_records example_twins ! 0) = 1"
    by (simp add: document_records_def example_twins_def area_count_def record_areas_def)
  show "populated_count example_twins_bubbles 0 (document_records example_twins ! 0) = 1"
    by (simp add: document_records_def example_twins_def populated_count_def area_count_def
        record_areas_def area_anchor_def str_nat_1 example_twins_bubbles_def bubbles_of_def)
  show "merge_areas (\<lambda>xs. xs) example_twins_areas example_twins_bubbles
       = Inr [(JStr ''rec.1'',
               [[(''start'', JInt 1), (''end'', JInt 10), (''products'', JArr []),
                 (''bubbles'', JInt 1)],
                [(''start'', JInt 5), (''end'', JInt 7), (''products'', JArr []),
                 (''bubbles'', JInt 2)]])]"
    by (simp add: merge_areas_def example_twins_areas_def example_twins_bubbles_def
        dict_getitem_def merge_step_def dict_pop_def bubbles_of_def py_eq_def)
qed

section \<open>The text handed to the parser\<close>

lemma rstrip_decomposition:
  "\<exists>suffix. s = rev (dropWhile P (rev s)) @ suffix \<and> list_all P suffix
     \<and> (rev (dropWhile P (rev s)) = [] \<or> \<not> P (last (rev (dropWhile P (rev s)))))"
proof -
  let ?kept = "rev (dropWhile P (rev s))" and ?cut = "rev (takeWhile P (rev s))"
  have 1: "s = ?kept @ ?cut"
    by (metis rev_append rev_rev_ident takeWhile_dropWhile_id)
  have 2: "list_all P ?cut"
    by (auto simp: list_all_iff dest: set_takeWhileD)
  have 3: "?kept = [] \<or> \<not> P (last ?kept)"
    by (cases "dropWhile P (rev s) = []") (simp_all add: last_rev hd_dropWhile)
  from 1 2 3 show ?thesis by blast
qed

text \<open>
  C4, as the code has it. From the found line \<open>line\<close> and the lines \<open>rest\<close> after it, the
  collected lines are joined by single spaces; the text for the parser is what remains of
  the joined lines when the trailing whitespace and then every trailing semicolon, not
  only one, are taken off; and the extractor's result is what the parser makes of that
  text (\<^verbatim>\<open>JSONDecodeError\<close> where it raises), turned into the bubble data.
\<close>

theorem section_text_parsed:
  assumes "skip_to_section lines = line # rest"
  shows "(\<exists>semis spaces.
            py_join '' '' (relevant_section line rest)
              = section_text (relevant_section line rest) @ semis @ spaces
          \<and> list_all py_isspace spaces
          \<and> (section_text (relevant_section line rest) @ semis = []
               \<or> \<not> py_isspace (last (section_text (relevant_section line rest) @ semis)))
          \<and> list_all (\<lambda>c. c = CHR '';'') semis
          \<and> (section_text (relevant_section line rest) = []
               \<or> last (section_text (relevant_section line rest)) \<noteq> CHR '';''))
       \<and> extract_bubble_data loads lines
           = bind_result
               (case loads (section_text (relevant_section line rest)) of
                  None \<Rightarrow> Inl JSONDecodeError | Some v \<Rightarrow> Inr v) (\<lambda>results_data.
             bind_result (py_items results_data) (\<lambda>items.
             bubble_loop items []))"
proof -
  let ?joined = "py_join '' '' (relevant_section line rest)"
  let ?text = "section_text (relevant_section line rest)"
  from rstrip_decomposition [of ?joined py_isspace] obtain spaces
    where j: "?joined = py_rstrip ?joined @ spaces" and sp: "list_all py_isspace spaces"
      and e: "py_rstrip ?joined = [] \<or> \<not> py_isspace (last (py_rstrip ?joined))"
    unfolding py_rstrip_def by blast
  from rstrip_decomposition [of "py_rstrip ?joined" "\<lambda>c. c \<in> set '';''"] obtain semis
    where t: "py_rstrip ?joined = ?text @ semis" and se: "list_all (\<lambda>c. c \<in> set '';'') semis"
      and l: "?text = [] \<or> \<not> last ?text \<in> set '';''"
    unfolding section_text_def py_rstrip_chars_def by blast
  from j t have "?joined = ?text @ semis @ spaces" by simp
  moreover from e t have "?text @ semis = [] \<or> \<not> py_isspace (last (?text @ semis))" by simp
  moreover from se have "list_all (\<lambda>c. c = CHR '';'') semis" by simp
  moreover from l have "?text = [] \<or> last ?text \<noteq> CHR '';''" by simp
  moreover from assms have "extract_bubble_data loads lines
           = bind_result
               (case loads ?text of None \<Rightarrow> Inl JSONDecodeError | Some v \<Rightarrow> Inr v) (\<lambda>results_data.
             bind_result (py_items results_data) (\<lambda>items.
             bubble_loop items []))"
    by (simp add: extract_bubble_data_def)
  ultimately show ?thesis using sp by blast
qed

theorem section_text_parsed_witness:
  "section_text (relevant_section (hd (tl example_regions)) (tl (tl example_regions))) = example_text
   \<and> py_join '' '' (relevant_section (hd (tl example_regions)) (tl (tl example_regions)))
       = example_text @ '';'' @ [CHR 0x0A]
   \<and> extract_bubble_data example_loads example_regions
       = bind_result
           (case example_loads (section_text (relevant_section (hd (tl example_regions)) (tl (tl example_regions)))) of
              None \<Rightarrow> Inl JSONDecodeError | Some v \<Rightarrow> Inr v) (\<lambda>results_data.
         bind_result (py_items results_data) (\<lambda>items.
         bubble_loop items []))"
proof -
  have skip: "skip_to_section example_regions = hd (tl example_regions) # tl (tl example_regions)"
    by (simp add: example_regions_def startswith_def)
  have parsed: "section_text (relevant_section (hd (tl example_regions)) (tl (tl example_regions)))
      = example_text"
    by (simp add: example_regions_def example_text_def section_text_def relevant_section_def
        startswith_def py_rstrip_def py_rstrip_chars_def py_isspace_def)
  have joined: "py_join '' '' (relevant_section (hd (tl example_regions)) (tl (tl example_regions)))
      = example_text @ '';'' @ [CHR 0x0A]"
    by (simp add: example_regions_def example_text_def relevant_section_def startswith_def)
  from section_text_parsed [OF skip, of example_loads] parsed joined show ?thesis
    by blast
qed

text \<open>
  A found line that ends in two semicolons: the code hands the parser the text without
  both, the wording with one semicolon left.
\<close>

theorem two_semicolons_stripped:
  "section_text (relevant_section ''var resultsData = {};;'' []) = ''{}''
   \<and> spec_section_text (relevant_section ''var resultsData = {};;'' []) = ''{};''"
  by (simp add: section_text_def spec_section_text_def strip_one_semicolon_def relevant_section_def
      startswith_def py_rstrip_def py_rstrip_chars_def py_isspace_def)

section \<open>The data file\<close>

lemma map_of_copy_deps:
  "k \<notin> fst ` set deps \<Longrightarrow> map_of (copy_deps deps files) k = map_of files k"
  by (induction deps arbitrary: files) (auto simp: map_of_dict_set)

lemma render_area_Inr:
  assumes "render_area name area = Inr (html, area')"
  shows "anchored name area area'"
proof -
  from assms obtain dashed start
    where d: "name_replace name = Inr dashed" and s: "dict_getitem area ''start'' = Inr start"
      and a: "area' = dict_set area ''anchor'' (JStr (dashed @ ''-'' @ py_str start))"
    by (auto simp: render_area_def bind_result_Inr_iff Let_def)
  from d obtain nm where "name = JStr nm" and "dashed = py_replace ''.'' ''-'' nm"
    by (cases name) auto
  moreover from s have "map_of area ''start'' = Some start"
    by (auto simp: dict_getitem_def split: option.splits)
  ultimately show ?thesis
    using a by (simp add: anchored_def)
qed

lemma render_areas_Inr:
  "render_areas name as = Inr (html, as') \<Longrightarrow> list_all2 (anchored name) as as'"
proof (induction as arbitrary: html as')
  case Nil
  then show ?case by simp
next
  case (Cons a as)
  from Cons.prems obtain h a' h' rest where "render_area name a = Inr (h, a')"
    and "render_areas name as = Inr (h', rest)" and "as' = a' # rest"
    by (auto simp: bind_result_Inr_iff)
  with Cons.IH [of h' rest] render_area_Inr [of name a h a'] show ?case by simp
qed

lemma render_records_Inr:
  "render_records records = Inr (html, rendered) \<Longrightarrow>
     list_all2 (\<lambda>r r'. fst r' = fst r \<and> list_all2 (anchored (fst r)) (snd r) (snd r')) records rendered"
proof (induction records arbitrary: html rendered)
  case Nil
  then show ?case by simp
next
  case (Cons r records)
  obtain name as where r: "r = (name, as)" by (cases r)
  from Cons.prems r obtain h as' h' rest where "render_areas name as = Inr (h, as')"
    and "render_records records = Inr (h', rest)" and "rendered = (name, as') # rest"
    by (auto simp: bind_result_Inr_iff)
  with Cons.IH [of h' rest] render_areas_Inr [of name as h as'] r show ?case by simp
qed

text \<open>
  C7. When \<^verbatim>\<open>generate_page\<close> returns, and no file of the dependencies is itself named
  \<^verbatim>\<open>data.js\<close>, the data file holds \<^verbatim>\<open>var data = \<close>, then the list of the aggregated
  records as the JSON encoder writes it with an indent of 1, then one semicolon. The list
  written is the list the aggregator returned with, in every area, the \<^verbatim>\<open>anchor\<close> that
  the rendering of the page added.
\<close>

theorem data_file_content:
  assumes "generate_page loads set_order deps inputs = Inr files"
    and "''data.js'' \<notin> fst ` set deps"
  shows "\<exists>all_results html rendered.
           process_all_results loads set_order inputs = Inr all_results
         \<and> render_records all_results = Inr (html, rendered)
         \<and> list_all2 (\<lambda>r r'. fst r' = fst r \<and> list_all2 (anchored (fst r)) (snd r) (snd r'))
              all_results rendered
         \<and> map_of files ''data.js''
             = Some (''var data = '' @ json_dump 1 (results_json rendered) @ '';'')"
proof -
  from assms(1) obtain all_results html rendered
    where p: "process_all_results loads set_order inputs = Inr all_results"
      and r: "render_records all_results = Inr (html, rendered)"
      and f: "files = copy_deps deps
            [(''index.html'', HTML_TOP @ html @ HTML_BOTTOM),
             (''data.js'', ''var data = '' @ json_dump 1 (results_json rendered) @ '';'')]"
    by (auto simp: generate_page_def bind_result_Inr_iff)
  from f assms(2) have "map_of files ''data.js''
      = Some (''var data = '' @ json_dump 1 (results_json rendered) @ '';'')"
    by (simp add: map_of_copy_deps)
  with p r render_records_Inr [OF r] show ?thesis by blast
qed

lemma example_render:
  "\<exists>html. render_records
      [(JStr ''rec.1'', [[(''start'', JInt 1), (''end'', JInt 10),
                          (''products'', JArr [JStr ''nrps'', JStr ''t1pks'']),
                          (''bubbles'', JObj [(''modules'', JInt 2)])]])]
    = Inr (html,
      [(JStr ''rec.1'', [[(''start'', JInt 1), (''end'', JInt 10),
                          (''products'', JArr [JStr ''nrps'', JStr ''t1pks'']),
                          (''bubbles'', JObj [(''modules'', JInt 2)]),
                          (''anchor'', JStr ''rec-1-1'')]])])"
  by (simp add: render_area_def dict_getitem_def join_products_def str_int_def str_nat_digit
      digit_char_def)

lemma example_dump:
  "''var data = '' @ json_dump 1 (results_json
      [(JStr ''rec.1'', [[(''start'', JInt 1), (''end'', JInt 10),
                          (''products'', JArr [JStr ''nrps'', JStr ''t1pks'']),
                          (''bubbles'', JObj [(''modules'', JInt 2)]),
                          (''anchor'', JStr ''rec-1-1'')]])]) @ '';'' = example_data_js"
  by code_simp

lemma example_process:
  "process_all_results example_loads (\<lambda>xs. xs) [example_dir]
     = Inr [(JStr ''rec.1'', [[(''start'', JInt 1), (''end'', JInt 10),
                               (''products'', JArr [JStr ''nrps'', JStr ''t1pks'']),
                               (''bubbles'', JObj [(''modules'', JInt 2)])]])]"
  by (simp add: process_all_results_def example_gather)

theorem data_file_content_witness:
  "\<exists>files. generate_page example_loads (\<lambda>xs. xs) [(''style.css'', ''body {}'')] [example_dir]
       = Inr files
     \<and> map_of files ''data.js'' = Some example_data_js"
proof -
  from example_render obtain html where r: "render_records
      [(JStr ''rec.1'', [[(''start'', JInt 1), (''end'', JInt 10),
                          (''products'', JArr [JStr ''nrps'', JStr ''t1pks'']),
                          (''bubbles'', JObj [(''modules'', JInt 2)])]])]
    = Inr (html,
      [(JStr ''rec.1'', [[(''start'', JInt 1), (''end'', JInt 10),
                          (''products'', JArr [JStr ''nrps'', JStr ''t1pks'']),
                          (''bubbles'', JObj [(''modules'', JInt 2)]),
                          (''anchor'', JStr ''rec-1-1'')]])])"
    by blast
  have "generate_page example_loads (\<lambda>xs. xs) [(''style.css'', ''body {}'')] [example_dir]
      = Inr (copy_deps [(''style.css'', ''body {}'')]
          [(''index.html'', HTML_TOP @ html @ HTML_BOTTOM),
           (''data.js'', ''var data = '' @ json_dump 1 (results_json
              [(JStr ''rec.1'', [[(''start'', JInt 1), (''end'', JInt 10),
                          (''products'', JArr [JStr ''nrps'', JStr ''t1pks'']),
                          (''bubbles'', JObj [(''modules'', JInt 2)]),
                          (''anchor'', JStr ''rec-1-1'')]])]) @ '';'')])"
    by (simp only: generate_page_def example_process bind_result.simps r prod.case)
  then obtain files
    where g: "generate_page example_loads (\<lambda>xs. xs) [(''style.css'', ''body {}'')] [example_dir]
        = Inr files"
    by blast
  have d: "''data.js'' \<notin> fst ` set [(''style.css'', ''body {}'')]" by simp
  from data_file_content [OF g d] obtain all_results html' rendered
    where "process_all_results example_loads (\<lambda>xs. xs) [example_dir] = Inr all_results"
      and "render_records all_results = Inr (html', rendered)"
      and f: "map_of files ''data.js''
             = Some (''var data = '' @ json_dump 1 (results_json rendered) @ '';'')"
    by blast
  with example_process r
  have "rendered = [(JStr ''rec.1'', [[(''start'', JInt 1), (''end'', JInt 10),
                          (''products'', JArr [JStr ''nrps'', JStr ''t1pks'']),
                          (''bubbles'', JObj [(''modules'', JInt 2)]),
                          (''anchor'', JStr ''rec-1-1'')]])]"
    by simp
  with f example_dump have "map_of files ''data.js'' = Some example_data_js"
    by simp
  with g show ?thesis by blast
qed

section \<open>The marker of the bubble data\<close>

lemma example_unmarked_gather:
  "gather_from_files example_loads (\<lambda>xs. xs) example_unmarked_dir
     = Inl (ValueError ''Javascript data does not contain relevant results'')"
  by (simp add: gather_from_files_def example_unmarked_dir_def example_get_areas
      extract_bubble_data_def startswith_def)

lemma example_unspaced_extract:
  "extract_bubble_data example_loads example_regions_unspaced = Inl JSONDecodeError"
proof -
  have "example_loads [] = None"
    by (simp add: example_loads_def example_text_def)
  moreover have "skip_to_section example_regions_unspaced
      = ''var resultsData ={};\<newline>'' # example_regions"
    by (simp add: example_regions_unspaced_def startswith_def)
  moreover have "section_text (relevant_section ''var resultsData ={};\<newline>'' example_regions) = []"
    by (simp add: section_text_def relevant_section_def startswith_def py_rstrip_def
        py_rstrip_chars_def)
  ultimately show ?thesis
    by (simp add: extract_bubble_data_def)
qed

lemma example_unspaced_spec:
  "spec_extract_bubble_data example_loads example_regions_unspaced = Inr example_bubble_data"
  by (simp add: spec_extract_bubble_data_def example_regions_unspaced_def example_regions_def
      example_text_def section_text_def relevant_section_def startswith_def py_rstrip_def
      py_rstrip_chars_def py_isspace_def example_loads_def example_results_data_def
      example_bubble_data_def VISUALISER_ROOT_def)

text \<open>
  C8, at a failing input. The file \<^verbatim>\<open>regions.js\<close> holds the bubble data of the example
  under the exact marker, after a line that starts with the marker without its final
  space. A scan for the exact marker finds the data. The scan of the code tests the
  prefix without the final space and stops at the line before: the removal, which
  uses the marker with the space, takes nothing off it, no line is collected, the parser
  is given the empty text and raises, and the run ends with status 1 and no domain error
  text. On a file with no such line at all, the extractor raises the domain error; it
  leaves the entry point, and the run ends with status 1 and the error text last on the
  error stream.
\<close>

theorem marker_prefix_mismatch:
  "spec_extract_bubble_data example_loads example_regions_unspaced = Inr example_bubble_data
   \<and> extract_bubble_data example_loads example_regions_unspaced = Inl JSONDecodeError
   \<and> script traceback example_loads (\<lambda>xs. xs) []
       \<lparr>input_dir = ''in'', input_is_dir = True, output_exists = False, output_is_dir = False,
        result_files = [example_unspaced_dir]\<rparr>
     = \<lparr>exit_status = 1, stderr = traceback JSONDecodeError @ [CHR 0x0A]\<rparr>
   \<and> script traceback example_loads (\<lambda>xs. xs) []
       \<lparr>input_dir = ''in'', input_is_dir = True, output_exists = False, output_is_dir = False,
        result_files = [example_unmarked_dir]\<rparr>
     = \<lparr>exit_status = 1,
        stderr = traceback (ValueError ''Javascript data does not contain relevant results'')
                 @ ''Javascript data does not contain relevant results'' @ [CHR 0x0A]\<rparr>"
proof (intro conjI)
  show "spec_extract_bubble_data example_loads example_regions_unspaced = Inr example_bubble_data"
    by (rule example_unspaced_spec)
  show "extract_bubble_data example_loads example_regions_unspaced = Inl JSONDecodeError"
    by (rule example_unspaced_extract)
  have "generate_page example_loads (\<lambda>xs. xs) [] [example_unspaced_dir] = Inl JSONDecodeError"
    by (simp add: generate_page_def process_all_results_def gather_from_files_def
        example_unspaced_dir_def example_get_areas example_unspaced_extract)
  then show "script traceback example_loads (\<lambda>xs. xs) []
       \<lparr>input_dir = ''in'', input_is_dir = True, output_exists = False, output_is_dir = False,
        result_files = [example_unspaced_dir]\<rparr>
     = \<lparr>exit_status = 1, stderr = traceback JSONDecodeError @ [CHR 0x0A]\<rparr>"
    by (simp add: script_def main_def)
  have "generate_page example_loads (\<lambda>xs. xs) [] [example_unmarked_dir]
      = Inl (ValueError ''Javascript data does not contain relevant results'')"
    by (simp add: generate_page_def process_all_results_def example_unmarked_gather)
  then show "script traceback example_loads (\<lambda>xs. xs) []
       \<lparr>input_dir = ''in'', input_is_dir = True, output_exists = False, output_is_dir = False,
        result_files = [example_unmarked_dir]\<rparr>
     = \<lparr>exit_status = 1,
        stderr = traceback (ValueError ''Javascript data does not contain relevant results'')
                 @ ''Javascript data does not contain relevant results'' @ [CHR 0x0A]\<rparr>"
    by (simp add: script_def main_def)
qed

end
